theory Spec2Isabelle
  imports Main
begin

section \<open>Texts\<close>

text \<open>
  The generator works on Python \<open>str\<close> values. They are modelled as \<open>string\<close>, a list of
  8-bit characters read as the code points below 256; the character classes below are the
  ones Python uses on that range.
\<close>

definition newline :: char where
  "newline = CHR ''\<newline>''"

definition dquote :: char where
  "dquote = CHR 0x22"

definition squote :: char where
  "squote = CHR 0x27"

text \<open>\<open>str.isspace\<close>, which is also the class \<open>\s\<close> of \<open>re\<close> on \<open>str\<close> patterns.\<close>

definition is_space :: "char \<Rightarrow> bool" where
  "is_space c =
     (c \<in> set [CHR 0x09, CHR 0x0A, CHR 0x0B, CHR 0x0C, CHR 0x0D, CHR 0x1C, CHR 0x1D,
                CHR 0x1E, CHR 0x1F, CHR 0x20, CHR 0x85, CHR 0xA0])"

definition starts_with :: "string \<Rightarrow> string \<Rightarrow> bool" where
  "starts_with p s = (take (length p) s = p)"

definition ends_with :: "string \<Rightarrow> string \<Rightarrow> bool" where
  "ends_with p s = (length p \<le> length s \<and> drop (length s - length p) s = p)"

text \<open>The text after a literal prefix, when the text starts with it.\<close>

definition strip_prefix :: "string \<Rightarrow> string \<Rightarrow> string option" where
  "strip_prefix p s = (if starts_with p s then Some (drop (length p) s) else None)"

definition lstrip :: "string \<Rightarrow> string" where
  "lstrip s = dropWhile is_space s"

definition rstrip :: "string \<Rightarrow> string" where
  "rstrip s = rev (dropWhile is_space (rev s))"

definition strip :: "string \<Rightarrow> string" where
  "strip s = rstrip (lstrip s)"

text \<open>\<open>s.strip(chars)\<close>: the characters of \<open>chars\<close> are removed from both ends.\<close>

definition strip_chars :: "string \<Rightarrow> string \<Rightarrow> string" where
  "strip_chars cs s =
     rev (dropWhile (\<lambda>c. c \<in> set cs) (rev (dropWhile (\<lambda>c. c \<in> set cs) s)))"

text \<open>\<open>s.split(c)\<close> for a one-character separator: never empty, \<open>''''\<close> gives \<open>['''']\<close>.\<close>

fun split_on :: "char \<Rightarrow> string \<Rightarrow> string list" where
  "split_on c [] = [[]]"
| "split_on c (x # xs) =
     (if x = c then [] # split_on c xs
      else (case split_on c xs of
              l # ls \<Rightarrow> (x # l) # ls
            | [] \<Rightarrow> [[x]]))"

text \<open>\<open>sep.join(parts)\<close> for a one-character separator.\<close>

fun join_with :: "char \<Rightarrow> string list \<Rightarrow> string" where
  "join_with c [] = []"
| "join_with c [l] = l"
| "join_with c (l # ls) = l @ c # join_with c ls"

section \<open>Syntax repair\<close>

text \<open>
  \<open>_fix_python_syntax\<close>: every line is stripped on the right; a line that is then not empty
  and starts with neither a space nor a tab gets four spaces in front when the line before
  it, as it stood in the input, ends with a colon. The error message is not used.
\<close>

definition fix_line :: "string list \<Rightarrow> nat \<Rightarrow> string" where
  "fix_line lines i =
     (let line = rstrip (lines ! i)
      in if line \<noteq> [] \<and> \<not> starts_with '' '' line \<and> \<not> starts_with [CHR 0x09] line
         then (if 0 < i \<and> ends_with '':'' (lines ! (i - 1)) then ''    '' @ line else line)
         else line)"

definition fix_python_syntax :: "string \<Rightarrow> string \<Rightarrow> string" where
  "fix_python_syntax code error_msg =
     (let lines = split_on newline code
      in join_with newline (map (fix_line lines) [0..<length lines]))"

section \<open>Regular expressions\<close>

text \<open>
  The patterns of the source are built from the pieces below. Each piece takes the
  continuation \<open>k\<close> that matches the rest of the pattern and follows the backtracking order
  of \<open>re\<close>: a greedy repetition tries the longest run first, a lazy one the shortest, an
  alternative its left branch first. A repetition returns the text it consumed, paired with
  the result of the continuation.
\<close>

definition lit :: "string \<Rightarrow> (string \<Rightarrow> 'a option) \<Rightarrow> string \<Rightarrow> 'a option" where
  "lit p k s = (case strip_prefix p s of Some s' \<Rightarrow> k s' | None \<Rightarrow> None)"

definition one :: "(char \<Rightarrow> bool) \<Rightarrow> (string \<Rightarrow> 'a option) \<Rightarrow> string \<Rightarrow> 'a option" where
  "one P k s = (case s of [] \<Rightarrow> None | c # cs \<Rightarrow> if P c then k cs else None)"

definition alt :: "(string \<Rightarrow> 'a option) \<Rightarrow> (string \<Rightarrow> 'a option) \<Rightarrow> string \<Rightarrow> 'a option" where
  "alt a b s = (case a s of Some r \<Rightarrow> Some r | None \<Rightarrow> b s)"

fun greedy_star :: "(char \<Rightarrow> bool) \<Rightarrow> (string \<Rightarrow> 'a option) \<Rightarrow> string \<Rightarrow> (string \<times> 'a) option" where
  "greedy_star P k [] = map_option (Pair []) (k [])"
| "greedy_star P k (c # cs) =
     (if P c
      then (case greedy_star P k cs of
              Some (g, r) \<Rightarrow> Some (c # g, r)
            | None \<Rightarrow> map_option (Pair []) (k (c # cs)))
      else map_option (Pair []) (k (c # cs)))"

fun lazy_star :: "(char \<Rightarrow> bool) \<Rightarrow> (string \<Rightarrow> 'a option) \<Rightarrow> string \<Rightarrow> (string \<times> 'a) option" where
  "lazy_star P k [] = map_option (Pair []) (k [])"
| "lazy_star P k (c # cs) =
     (case k (c # cs) of
        Some r \<Rightarrow> Some ([], r)
      | None \<Rightarrow>
          if P c
          then (case lazy_star P k cs of Some (g, r) \<Rightarrow> Some (c # g, r) | None \<Rightarrow> None)
          else None)"

definition greedy_plus :: "(char \<Rightarrow> bool) \<Rightarrow> (string \<Rightarrow> 'a option) \<Rightarrow> string \<Rightarrow> (string \<times> 'a) option" where
  "greedy_plus P k s =
     (case s of
        [] \<Rightarrow> None
      | c # cs \<Rightarrow>
          if P c
          then (case greedy_star P k cs of Some (g, r) \<Rightarrow> Some (c # g, r) | None \<Rightarrow> None)
          else None)"

definition lazy_plus :: "(char \<Rightarrow> bool) \<Rightarrow> (string \<Rightarrow> 'a option) \<Rightarrow> string \<Rightarrow> (string \<times> 'a) option" where
  "lazy_plus P k s =
     (case s of
        [] \<Rightarrow> None
      | c # cs \<Rightarrow>
          if P c
          then (case lazy_star P k cs of Some (g, r) \<Rightarrow> Some (c # g, r) | None \<Rightarrow> None)
          else None)"

text \<open>\<open>str.lower\<close> on one character of the 8-bit range.\<close>

definition lower_char :: "char \<Rightarrow> char" where
  "lower_char c =
     (let n = (of_char c :: nat)
      in if (65 \<le> n \<and> n \<le> 90) \<or> (192 \<le> n \<and> n \<le> 222 \<and> n \<noteq> 215)
         then char_of (n + 32) else c)"

definition lower :: "string \<Rightarrow> string" where
  "lower s = map lower_char s"

text \<open>A literal under \<open>re.IGNORECASE\<close>.\<close>

definition lit_ci :: "string \<Rightarrow> (string \<Rightarrow> 'a option) \<Rightarrow> string \<Rightarrow> 'a option" where
  "lit_ci p k s =
     (if lower (take (length p) s) = lower p then k (drop (length p) s) else None)"

definition is_quote :: "char \<Rightarrow> bool" where
  "is_quote c = (c = squote \<or> c = dquote)"

definition non_space :: "char \<Rightarrow> bool" where
  "non_space c = (\<not> is_space c)"

definition not_newline :: "char \<Rightarrow> bool" where
  "not_newline c = (c \<noteq> newline)"

definition any_char :: "char \<Rightarrow> bool" where
  "any_char c = True"

definition lower_az :: "char \<Rightarrow> bool" where
  "lower_az c = (97 \<le> (of_char c :: nat) \<and> (of_char c :: nat) \<le> 122)"

text \<open>
  A pattern with one group, tried at one position of the text: the flag says whether
  the position starts a line (the start of the text, or just after a newline), and a
  match gives group 1 and the text after the match.
\<close>

type_synonym pattern = "bool \<Rightarrow> string \<Rightarrow> (string \<times> string) option"

text \<open>
  \<open>re.finditer\<close>, as the list of the groups 1: the leftmost match from each position,
  the scan resuming where the match ended (one character further after an empty match).
\<close>

fun finditer :: "pattern \<Rightarrow> bool \<Rightarrow> string \<Rightarrow> string list" where
  "finditer m bol [] = (case m bol [] of Some (g, rest) \<Rightarrow> [g] | None \<Rightarrow> [])"
| "finditer m bol (c # cs) =
     (case m bol (c # cs) of
        Some (g, rest) \<Rightarrow>
          if length rest < length (c # cs)
          then g # finditer m (last (take (length (c # cs) - length rest) (c # cs)) = newline) rest
          else g # finditer m (c = newline) cs
      | None \<Rightarrow> finditer m (c = newline) cs)"

text \<open>\<open>re.search\<close>: group 1 of the leftmost match.\<close>

fun re_search :: "pattern \<Rightarrow> bool \<Rightarrow> string \<Rightarrow> string option" where
  "re_search m bol [] = map_option fst (m bol [])"
| "re_search m bol (c # cs) =
     (case m bol (c # cs) of
        Some (g, rest) \<Rightarrow> Some g
      | None \<Rightarrow> re_search m (c = newline) cs)"

text \<open>
  \<open>re.sub(pattern, '', text)\<close> for a pattern that needs no line start: every leftmost match
  is dropped, the characters between the matches are kept.
\<close>

fun re_sub_del :: "(string \<Rightarrow> (string \<times> string) option) \<Rightarrow> string \<Rightarrow> string" where
  "re_sub_del m [] = []"
| "re_sub_del m (c # cs) =
     (case m (c # cs) of
        Some (g, rest) \<Rightarrow>
          if length rest < length (c # cs) then re_sub_del m rest else c # re_sub_del m cs
      | None \<Rightarrow> c # re_sub_del m cs)"

text \<open>\<open>text.replace(old, '')\<close> for a non-empty \<open>old\<close>.\<close>

fun replace_del :: "string \<Rightarrow> string \<Rightarrow> string" where
  "replace_del old [] = []"
| "replace_del old (c # cs) =
     (if old \<noteq> [] \<and> starts_with old (c # cs)
      then replace_del old (drop (length old) (c # cs))
      else c # replace_del old cs)"

section \<open>Dependency extraction\<close>

text \<open>The pattern \<^verbatim>\<open>^\s*(?:import|from)\s+(\S+)\<close> under \<open>re.MULTILINE\<close>.\<close>

definition import_target :: "string \<Rightarrow> (string \<times> string) option" where
  "import_target s = map_option snd (greedy_plus is_space (greedy_plus non_space Some) s)"

definition python_import :: pattern where
  "python_import bol s =
     (if bol
      then map_option snd
             (greedy_star is_space (alt (lit ''import'' import_target) (lit ''from'' import_target)) s)
      else None)"

text \<open>The piece \<^verbatim>\<open>['\"](\S+?)['\"]\<close>, followed by \<open>k\<close>.\<close>

definition quoted_name :: "(string \<Rightarrow> string option) \<Rightarrow> string \<Rightarrow> (string \<times> string) option" where
  "quoted_name k = one is_quote (lazy_plus non_space (one is_quote k))"

text \<open>The pattern \<^verbatim>\<open>require\(['\"](\S+?)['\"]\)\<close>.\<close>

definition js_require :: pattern where
  "js_require bol = lit ''require('' (quoted_name (lit '')'' Some))"

text \<open>The pattern \<^verbatim>\<open>import.*from\s+['\"](\S+?)['\"]\<close>.\<close>

definition from_target :: "string \<Rightarrow> (string \<times> string) option" where
  "from_target s = map_option snd (greedy_plus is_space (quoted_name Some) s)"

definition js_import_from :: pattern where
  "js_import_from bol =
     lit ''import'' (\<lambda>s. map_option snd (greedy_star not_newline (lit ''from'' from_target) s))"

text \<open>The pattern \<^verbatim>\<open>import\s+['\"](\S+?)['\"]\<close>.\<close>

definition js_import_bare :: pattern where
  "js_import_bare bol = lit ''import'' from_target"

definition js_patterns :: "pattern list" where
  "js_patterns = [js_require, js_import_from, js_import_bare]"

text \<open>The bodies of the two loops of \<open>_extract_dependencies\<close>, on group 1 of a match.\<close>

definition add_python_dep :: "string list \<Rightarrow> string \<Rightarrow> string list" where
  "add_python_dep dependencies g =
     (let dep = hd (split_on (CHR ''.'') g)
      in if dep \<notin> set dependencies \<and> \<not> starts_with ''_'' dep
         then dependencies @ [dep] else dependencies)"

definition add_js_dep :: "string list \<Rightarrow> string \<Rightarrow> string list" where
  "add_js_dep dependencies dep =
     (if dep \<notin> set dependencies \<and> \<not> starts_with ''.'' dep
      then dependencies @ [hd (split_on (CHR ''/'') dep)] else dependencies)"

definition extract_dependencies :: "string \<Rightarrow> string \<Rightarrow> string list" where
  "extract_dependencies code language =
     (if language = ''python''
      then foldl add_python_dep [] (finditer python_import True code)
      else if language = ''javascript''
      then foldl (\<lambda>dependencies p. foldl add_js_dep dependencies (finditer p True code))
             [] js_patterns
      else [])"

text \<open>
  The order the specification asks of the result, in its own words: every name once, at
  the place of its first occurrence.
\<close>

definition first_occurrences :: "'a list \<Rightarrow> 'a list" where
  "first_occurrences xs = rev (remdups (rev xs))"

section \<open>Code cleaning\<close>

text \<open>
  Exceptions are values: a class and a message. Only subclasses of \<open>Exception\<close> occur.
\<close>

datatype exc_class =
  SyntaxError | IndentationError | TabError | ValueError | JSONDecodeError
  | RecursionError | MemoryError | UnicodeEncodeError | OtherError

datatype py_exception = Exc exc_class string

fun exc_message :: "py_exception \<Rightarrow> string" where
  "exc_message (Exc c m) = m"

text \<open>\<open>except SyntaxError\<close> also catches the two subclasses of \<open>SyntaxError\<close>.\<close>

fun is_syntax_error :: "py_exception \<Rightarrow> bool" where
  "is_syntax_error (Exc c m) = (c = SyntaxError \<or> c = IndentationError \<or> c = TabError)"

text \<open>
  Both exception handlers of the source print a warning before they go on, and nothing
  catches what that \<open>print\<close> raises. Each warning starts with a warning sign that is not
  ASCII; the one of the structure parser also holds the text of the exception. Whether
  \<open>print\<close> returns depends on the standard output of the process, so the console is a
  parameter: for a warning it gives \<open>None\<close> when the text is written, and the exception
  that \<open>print\<close> raises otherwise. Two consoles serve the examples: one whose encoding is
  UTF-8, which writes every text of this model, and one whose encoding is ASCII, which
  cannot write the warning sign and so raises \<open>UnicodeEncodeError\<close> on both warnings.
\<close>

datatype warning = StructureWarning py_exception | SyntaxRepairWarning

type_synonym console = "warning \<Rightarrow> py_exception option"

definition utf8_console :: console where
  "utf8_console w = None"

definition ascii_console :: console where
  "ascii_console w = Some (Exc UnicodeEncodeError ''ascii codec cannot encode the warning sign'')"

text \<open>The pattern \<^verbatim>\<open>```[a-z]*\n\<close>.\<close>

definition fence_open :: "string \<Rightarrow> (string \<times> string) option" where
  "fence_open = lit ''```'' (greedy_star lower_az (lit [newline] Some))"

text \<open>The patterns \<^verbatim>\<open># Response:.*?\n\<close> and \<^verbatim>\<open>// Response:.*?\n\<close> under \<open>re.IGNORECASE\<close>.\<close>

definition echo :: "string \<Rightarrow> string \<Rightarrow> (string \<times> string) option" where
  "echo marker = lit_ci marker (lazy_star not_newline (lit [newline] Some))"

definition remove_fences :: "string \<Rightarrow> string" where
  "remove_fences code = replace_del ''```'' (re_sub_del fence_open code)"

definition remove_echoes :: "string \<Rightarrow> string" where
  "remove_echoes code = re_sub_del (echo ''// Response:'') (re_sub_del (echo ''# Response:'') code)"

text \<open>
  \<open>_clean_generated_code\<close>. \<open>ast.parse\<close> belongs to the Python runtime, so its verdict on a
  text is a parameter: \<open>None\<close> when the text parses, the exception it raises otherwise.
  Only a \<open>SyntaxError\<close> is caught; any other exception leaves the function, and so does
  an exception of the handler's \<open>print\<close>.
\<close>

definition clean_generated_code ::
  "(string \<Rightarrow> py_exception option) \<Rightarrow> console \<Rightarrow> string \<Rightarrow> string \<Rightarrow> py_exception + string" where
  "clean_generated_code ast_parse print_warning code language =
     (let code' = remove_echoes (remove_fences code)
      in if language = ''python''
         then (case ast_parse code' of
                 None \<Rightarrow> Inr (strip code')
               | Some e \<Rightarrow>
                   if is_syntax_error e
                   then (case print_warning SyntaxRepairWarning of
                           Some raised \<Rightarrow> Inl raised
                         | None \<Rightarrow> Inr (strip (fix_python_syntax code' (exc_message e))))
                   else Inl e)
         else Inr (strip code'))"

text \<open>
  For the examples that reach the syntax check: the verdict of CPython's \<open>ast.parse\<close> on
  four texts. An assignment parses; an \<open>if\<close> header followed by a line that is not
  indented raises \<open>IndentationError\<close>. A text without a recorded verdict gets an error that
  is not a \<open>SyntaxError\<close>, so that no example can rest on a verdict that is not recorded.
\<close>

definition recorded_verdicts :: "(string \<times> py_exception option) list" where
  "recorded_verdicts =
     [(''x = 1\<newline>'', None),
      (''x = 1'', None),
      (''if a: \<newline>b'', Some (Exc IndentationError ''expected an indented block'')),
      (''if a:\<newline>b'', Some (Exc IndentationError ''expected an indented block''))]"

definition ast_parse_recorded :: "string \<Rightarrow> py_exception option" where
  "ast_parse_recorded s =
     (case map_of recorded_verdicts s of
        Some verdict \<Rightarrow> verdict
      | None \<Rightarrow> Some (Exc OtherError ''no recorded verdict''))"

text \<open>\<open>old in text\<close>, and whether one of the two echo patterns matches somewhere in the text.\<close>

fun contains :: "string \<Rightarrow> string \<Rightarrow> bool" where
  "contains old [] = (old = [])"
| "contains old (c # cs) = (starts_with old (c # cs) \<or> contains old cs)"

fun matches_somewhere :: "(string \<Rightarrow> (string \<times> string) option) \<Rightarrow> string \<Rightarrow> bool" where
  "matches_somewhere m [] = (m [] \<noteq> None)"
| "matches_somewhere m (c # cs) = (m (c # cs) \<noteq> None \<or> matches_somewhere m cs)"

text \<open>Whether a marker stands somewhere in the text, in any case of its letters.\<close>

fun occurs_ci :: "string \<Rightarrow> string \<Rightarrow> bool" where
  "occurs_ci m [] = (lower m = [])"
| "occurs_ci m (c # cs) = (lower (take (length m) (c # cs)) = lower m \<or> occurs_ci m cs)"

definition has_echo :: "string \<Rightarrow> bool" where
  "has_echo code =
     (matches_somewhere (echo ''# Response:'') code \<or> matches_somewhere (echo ''// Response:'') code)"

section \<open>Language detection\<close>

definition extensions :: "(string \<times> string) list" where
  "extensions =
     [(''.py'', ''python''), (''.js'', ''javascript''), (''.ts'', ''typescript''),
      (''.jsx'', ''react''), (''.tsx'', ''react-ts''), (''.java'', ''java''),
      (''.cpp'', ''cpp''), (''.c'', ''c''), (''.rs'', ''rust''), (''.go'', ''go''),
      (''.rb'', ''ruby''), (''.php'', ''php''), (''.html'', ''html''), (''.css'', ''css''),
      (''.md'', ''markdown''), (''.json'', ''json''), (''.yml'', ''yaml''),
      (''.yaml'', ''yaml''), (''.toml'', ''toml''), (''.sh'', ''bash''), (''.sql'', ''sql'')]"

text \<open>
  \<open>Path(filename).suffix\<close> on a POSIX system: the name is the last component that is
  neither empty nor a single dot, and the suffix starts at the last dot of the name when
  that dot is neither its first nor its last character.
\<close>

definition path_name :: "string \<Rightarrow> string" where
  "path_name filename =
     (let parts = filter (\<lambda>p. p \<noteq> [] \<and> p \<noteq> ''.'') (split_on (CHR ''/'') filename)
      in if parts = [] then [] else last parts)"

definition rfind :: "char \<Rightarrow> string \<Rightarrow> nat option" where
  "rfind c s =
     (if c \<in> set s then Some (length s - 1 - length (takeWhile (\<lambda>x. x \<noteq> c) (rev s)))
      else None)"

definition path_suffix :: "string \<Rightarrow> string" where
  "path_suffix filename =
     (let name = path_name filename
      in case rfind (CHR ''.'') name of
           None \<Rightarrow> []
         | Some i \<Rightarrow> if 0 < i \<and> i < length name - 1 then drop i name else [])"

definition detect_language :: "string \<Rightarrow> string" where
  "detect_language filename =
     (case map_of extensions (lower (path_suffix filename)) of
        Some tag \<Rightarrow> tag
      | None \<Rightarrow> ''text'')"

section \<open>JSON values and their decoder\<close>

text \<open>
  What \<open>json.loads\<close> returns: \<open>None\<close>, a \<open>bool\<close>, an \<open>int\<close>, a \<open>float\<close>, a \<open>str\<close>, a \<open>list\<close> or a
  \<open>dict\<close>. A \<open>float\<close> is kept as the text of the number; a \<open>dict\<close> is the list of its items
  in insertion order, every key once.
\<close>

datatype json =
  JNull | JBool bool | JInt int | JFloat string | JString string
  | JArray "json list" | JObject "(string \<times> json) list"

text \<open>\<open>d[key] = value\<close>: a key that is present keeps its place and gets the new value.\<close>

fun dict_set :: "string \<Rightarrow> json \<Rightarrow> (string \<times> json) list \<Rightarrow> (string \<times> json) list" where
  "dict_set k v [] = [(k, v)]"
| "dict_set k v ((k', v') # kvs) =
     (if k = k' then (k, v) # kvs else (k', v') # dict_set k v kvs)"

text \<open>
  \<open>json.loads\<close> belongs to the Python library. The structure parser takes the decoder as
  a parameter, so that what is proved of the parser holds for every decoder; the decoder
  \<open>json_loads\<close> below follows the grammar that \<open>json.loads\<close> accepts and is used to run the
  parser on examples. It differs from the library in two places, both away from the
  examples: a \<open>\u\<close> escape above \<open>00FF\<close> names a character outside the 8-bit texts of
  this model and is reported as an error, and the depth of nesting is bounded by the length
  of the text and not by the interpreter's recursion limit.
\<close>

definition decode_error :: "string \<Rightarrow> py_exception + 'a" where
  "decode_error msg = Inl (Exc JSONDecodeError msg)"

definition json_space :: "char \<Rightarrow> bool" where
  "json_space c = (c \<in> set [CHR '' '', CHR 0x09, CHR 0x0A, CHR 0x0D])"

definition skip_space :: "string \<Rightarrow> string" where
  "skip_space s = dropWhile json_space s"

definition is_digit :: "char \<Rightarrow> bool" where
  "is_digit c = (48 \<le> (of_char c :: nat) \<and> (of_char c :: nat) \<le> 57)"

definition hex_value :: "char \<Rightarrow> nat option" where
  "hex_value c =
     (let n = (of_char c :: nat)
      in if 48 \<le> n \<and> n \<le> 57 then Some (n - 48)
         else if 97 \<le> n \<and> n \<le> 102 then Some (n - 87)
         else if 65 \<le> n \<and> n \<le> 70 then Some (n - 55)
         else None)"

definition unescape :: "char \<Rightarrow> char option" where
  "unescape e =
     map_of [(dquote, dquote), (CHR 0x5C, CHR 0x5C), (CHR ''/'', CHR ''/''),
             (CHR ''b'', CHR 0x08), (CHR ''f'', CHR 0x0C), (CHR ''n'', CHR 0x0A),
             (CHR ''r'', CHR 0x0D), (CHR ''t'', CHR 0x09)] e"

definition prepend :: "char \<Rightarrow> py_exception + (string \<times> string) \<Rightarrow> py_exception + (string \<times> string)" where
  "prepend c r = (case r of Inl e \<Rightarrow> Inl e | Inr (t, rest) \<Rightarrow> Inr (c # t, rest))"

text \<open>The characters of a string, from behind its opening quote: the string and the rest.\<close>

fun scanstring :: "string \<Rightarrow> py_exception + (string \<times> string)" where
  "scanstring [] = decode_error ''Unterminated string''"
| "scanstring (c # cs) =
     (if c = dquote then Inr ([], cs)
      else if c = CHR 0x5C
      then (case cs of
              [] \<Rightarrow> decode_error ''Unterminated string''
            | e # cs' \<Rightarrow>
                if e = CHR ''u''
                then (case cs' of
                        h1 # h2 # h3 # h4 # cs'' \<Rightarrow>
                          (case (hex_value h1, hex_value h2, hex_value h3, hex_value h4) of
                             (Some a, Some b, Some x, Some d) \<Rightarrow>
                               if ((a * 16 + b) * 16 + x) * 16 + d < 256
                               then prepend (char_of (((a * 16 + b) * 16 + x) * 16 + d))
                                      (scanstring cs'')
                               else Inl (Exc OtherError ''escape outside the 8-bit range'')
                           | _ \<Rightarrow> decode_error ''Invalid uXXXX escape'')
                      | _ \<Rightarrow> decode_error ''Invalid uXXXX escape'')
                else (case unescape e of
                        None \<Rightarrow> decode_error ''Invalid escape''
                      | Some ch \<Rightarrow> prepend ch (scanstring cs')))
      else if (of_char c :: nat) < 32 then decode_error ''Invalid control character''
      else prepend c (scanstring cs))"

text \<open>
  A number, by the pattern \<^verbatim>\<open>(-?(?:0|[1-9][0-9]*))(\.[0-9]+)?([eE][-+]?[0-9]+)?\<close>: its three
  parts, then the value (an \<open>int\<close> when the last two parts are empty).
\<close>

definition scan_int_part :: "string \<Rightarrow> (string \<times> string) option" where
  "scan_int_part s =
     (let sign = (if starts_with ''-'' s then ''-'' else []);
          s1 = drop (length sign) s
      in case s1 of
           [] \<Rightarrow> None
         | d # r \<Rightarrow>
             if d = CHR ''0'' then Some (sign @ ''0'', r)
             else if is_digit d then Some (sign @ d # takeWhile is_digit r, dropWhile is_digit r)
             else None)"

definition scan_frac :: "string \<Rightarrow> string \<times> string" where
  "scan_frac s =
     (case s of
        [] \<Rightarrow> ([], s)
      | c # r \<Rightarrow>
          if c = CHR ''.'' \<and> takeWhile is_digit r \<noteq> []
          then (c # takeWhile is_digit r, dropWhile is_digit r)
          else ([], s))"

definition scan_exp :: "string \<Rightarrow> string \<times> string" where
  "scan_exp s =
     (case s of
        [] \<Rightarrow> ([], s)
      | c # r \<Rightarrow>
          if c = CHR ''e'' \<or> c = CHR ''E''
          then (let sign = (if starts_with ''-'' r \<or> starts_with ''+'' r then take 1 r else []);
                    r1 = drop (length sign) r
                in if takeWhile is_digit r1 \<noteq> []
                   then (c # sign @ takeWhile is_digit r1, dropWhile is_digit r1)
                   else ([], s))
          else ([], s))"

definition int_of_digits :: "string \<Rightarrow> int" where
  "int_of_digits ds = foldl (\<lambda>a d. 10 * a + int ((of_char d :: nat) - 48)) 0 ds"

definition int_of_lexeme :: "string \<Rightarrow> int" where
  "int_of_lexeme l =
     (if starts_with ''-'' l then - int_of_digits (drop 1 l) else int_of_digits l)"

definition scan_number :: "string \<Rightarrow> (json \<times> string) option" where
  "scan_number s =
     (case scan_int_part s of
        None \<Rightarrow> None
      | Some (ip, r) \<Rightarrow>
          (case scan_frac r of
             (fr, r1) \<Rightarrow>
               (case scan_exp r1 of
                  (ex, r2) \<Rightarrow>
                    if fr = [] \<and> ex = [] then Some (JInt (int_of_lexeme ip), r2)
                    else Some (JFloat (ip @ fr @ ex), r2))))"

text \<open>
  The scanner, with a budget of calls. \<open>decode_array\<close> starts at an element, with the
  elements before it; \<open>decode_object\<close> starts behind the opening quote of a key, with the
  items before it.
\<close>

fun decode_value :: "nat \<Rightarrow> string \<Rightarrow> py_exception + (json \<times> string)"
  and decode_array :: "nat \<Rightarrow> json list \<Rightarrow> string \<Rightarrow> py_exception + (json \<times> string)"
  and decode_object :: "nat \<Rightarrow> (string \<times> json) list \<Rightarrow> string \<Rightarrow> py_exception + (json \<times> string)" where
  "decode_value 0 s = Inl (Exc RecursionError ''maximum recursion depth exceeded'')"
| "decode_value (Suc n) s =
     (case s of
        [] \<Rightarrow> decode_error ''Expecting value''
      | c # cs \<Rightarrow>
          if c = dquote
          then (case scanstring cs of Inl e \<Rightarrow> Inl e | Inr (t, rest) \<Rightarrow> Inr (JString t, rest))
          else if c = CHR ''{''
          then (case skip_space cs of
                  [] \<Rightarrow> decode_error ''Expecting property name enclosed in double quotes''
                | d # ds \<Rightarrow>
                    if d = CHR ''}'' then Inr (JObject [], ds)
                    else if d = dquote then decode_object n [] ds
                    else decode_error ''Expecting property name enclosed in double quotes'')
          else if c = CHR ''[''
          then (case skip_space cs of
                  [] \<Rightarrow> decode_error ''Expecting value''
                | d # ds \<Rightarrow>
                    if d = CHR '']'' then Inr (JArray [], ds) else decode_array n [] (d # ds))
          else if starts_with ''null'' s then Inr (JNull, drop 4 s)
          else if starts_with ''true'' s then Inr (JBool True, drop 4 s)
          else if starts_with ''false'' s then Inr (JBool False, drop 5 s)
          else (case scan_number s of
                  Some r \<Rightarrow> Inr r
                | None \<Rightarrow>
                    if starts_with ''NaN'' s then Inr (JFloat ''NaN'', drop 3 s)
                    else if starts_with ''Infinity'' s then Inr (JFloat ''Infinity'', drop 8 s)
                    else if starts_with ''-Infinity'' s then Inr (JFloat ''-Infinity'', drop 9 s)
                    else decode_error ''Expecting value''))"
| "decode_array 0 acc s = Inl (Exc RecursionError ''maximum recursion depth exceeded'')"
| "decode_array (Suc n) acc s =
     (case decode_value n s of
        Inl e \<Rightarrow> Inl e
      | Inr (v, rest) \<Rightarrow>
          (case skip_space rest of
             [] \<Rightarrow> decode_error ''Expecting , delimiter''
           | d # ds \<Rightarrow>
               if d = CHR '']'' then Inr (JArray (acc @ [v]), ds)
               else if d = CHR '','' then decode_array n (acc @ [v]) (skip_space ds)
               else decode_error ''Expecting , delimiter''))"
| "decode_object 0 acc s = Inl (Exc RecursionError ''maximum recursion depth exceeded'')"
| "decode_object (Suc n) acc s =
     (case scanstring s of
        Inl e \<Rightarrow> Inl e
      | Inr (key, rest) \<Rightarrow>
          (case skip_space rest of
             [] \<Rightarrow> decode_error ''Expecting : delimiter''
           | d # ds \<Rightarrow>
               if d \<noteq> CHR '':'' then decode_error ''Expecting : delimiter''
               else (case decode_value n (skip_space ds) of
                       Inl e \<Rightarrow> Inl e
                     | Inr (v, rest') \<Rightarrow>
                         (case skip_space rest' of
                            [] \<Rightarrow> decode_error ''Expecting , delimiter''
                          | x # xs \<Rightarrow>
                              if x = CHR ''}'' then Inr (JObject (dict_set key v acc), xs)
                              else if x = CHR '',''
                              then (case skip_space xs of
                                      [] \<Rightarrow> decode_error ''Expecting property name enclosed in double quotes''
                                    | y # ys \<Rightarrow>
                                        if y = dquote then decode_object n (dict_set key v acc) ys
                                        else decode_error ''Expecting property name enclosed in double quotes'')
                              else decode_error ''Expecting , delimiter''))))"

definition json_loads :: "string \<Rightarrow> py_exception + json" where
  "json_loads s =
     (case decode_value (2 * length s + 2) (skip_space s) of
        Inl e \<Rightarrow> Inl e
      | Inr (v, rest) \<Rightarrow> if skip_space rest = [] then Inr v else decode_error ''Extra data'')"

section \<open>Structure responses\<close>

text \<open>The pattern \<^verbatim>\<open>```json\n(.*?)\n```\<close> under \<open>re.DOTALL\<close>.\<close>

definition json_fence :: pattern where
  "json_fence bol = lit (''```json'' @ [newline]) (lazy_star any_char (lit (newline # ''```'') Some))"

definition source_extensions :: "string list" where
  "source_extensions = [''.py'', ''.js'', ''.ts'', ''.java'', ''.cpp'', ''.rs'', ''.go'']"

definition file_entry :: "string \<Rightarrow> json" where
  "file_entry line =
     JObject [(''path'', JString (strip_chars ''- '' line)),
              (''language'', JString (detect_language line))]"

text \<open>The body of the loop over the lines of the response.\<close>

definition add_line :: "json list \<Rightarrow> string \<Rightarrow> json list" where
  "add_line files l =
     (let line = strip l
      in if list_ex (\<lambda>e. ends_with e line) source_extensions
         then files @ [file_entry line] else files)"

definition fallback_structure :: "string \<Rightarrow> json" where
  "fallback_structure response =
     JObject [(''name'', JString ''project''),
              (''files'', JArray (foldl add_line [] (split_on newline (strip response))))]"

definition default_structure :: json where
  "default_structure =
     JObject [(''name'', JString ''project''),
              (''files'',
               JArray [JObject [(''path'', JString ''main.py''), (''language'', JString ''python'')],
                       JObject [(''path'', JString ''README.md''), (''language'', JString ''markdown'')]])]"

text \<open>
  \<open>_parse_structure_response\<close>: first the body of the \<open>try\<close>, which can raise, then the
  function with its handler for every \<open>Exception\<close>. The handler prints its warning and
  then returns the default structure; an exception of that \<open>print\<close> leaves the function.
\<close>

definition structure_body :: "(string \<Rightarrow> py_exception + json) \<Rightarrow> string \<Rightarrow> py_exception + json" where
  "structure_body loads response =
     (case re_search json_fence True response of
        Some content \<Rightarrow> loads content
      | None \<Rightarrow> Inr (fallback_structure response))"

definition parse_structure_response ::
  "(string \<Rightarrow> py_exception + json) \<Rightarrow> console \<Rightarrow> string \<Rightarrow> py_exception + json" where
  "parse_structure_response loads print_warning response =
     (case structure_body loads response of
        Inl e \<Rightarrow>
          (case print_warning (StructureWarning e) of
             Some raised \<Rightarrow> Inl raised
           | None \<Rightarrow> Inr default_structure)
      | Inr plan \<Rightarrow> Inr plan)"

text \<open>
  The file list of the fallback in the specification's words: one entry for every trimmed
  line that is not empty and ends in one of the source extensions, in the order of the
  lines; the path is the line without its leading list markers (hyphens and spaces), the
  tag is what the detector gives for the line.
\<close>

definition listed_files :: "string \<Rightarrow> json list" where
  "listed_files response =
     map (\<lambda>line. JObject [(''path'', JString (dropWhile (\<lambda>c. c \<in> set ''- '') line)),
                          (''language'', JString (detect_language line))])
       (filter (\<lambda>line. line \<noteq> [] \<and> list_ex (\<lambda>e. ends_with e line) source_extensions)
          (map strip (split_on newline (strip response))))"

text \<open>A plan in the format the structure prompt asks for, for the examples.\<close>

definition sample_plan :: string where
  "sample_plan =
     ''{'' @ [dquote] @ ''name'' @ [dquote] @ '': '' @ [dquote] @ ''demo'' @ [dquote] @ '', ''
     @ [dquote] @ ''files'' @ [dquote] @ '': [{'' @ [dquote] @ ''path'' @ [dquote] @ '': ''
     @ [dquote] @ ''app.py'' @ [dquote] @ '', '' @ [dquote] @ ''language'' @ [dquote] @ '': ''
     @ [dquote] @ ''python'' @ [dquote] @ ''}]}''"

definition sample_structure :: json where
  "sample_structure =
     JObject [(''name'', JString ''demo''),
              (''files'',
               JArray [JObject [(''path'', JString ''app.py''), (''language'', JString ''python'')]])]"

text \<open>
  Modelled from the spec: the source has no type for a project structure (it passes plain
  dictionaries), so the ProjectStructure of the specification's data model is written out
  here. A structure has a \<open>name\<close> that is a string and \<open>files\<close> that is a sequence of file
  specifications; a file specification has a \<open>path\<close> that is a string, a \<open>language\<close> that is
  one of the tags of the detector's table or \<open>text\<close>, and optionally a \<open>purpose\<close> that is a
  string and \<open>dependencies\<close> that is a sequence of strings.
\<close>

definition language_tags :: "string list" where
  "language_tags = map snd extensions @ [''text'']"

fun is_string :: "json \<Rightarrow> bool" where
  "is_string (JString s) = True"
| "is_string _ = False"

fun is_string_list :: "json \<Rightarrow> bool" where
  "is_string_list (JArray xs) = list_all is_string xs"
| "is_string_list _ = False"

fun is_language_tag :: "json \<Rightarrow> bool" where
  "is_language_tag (JString s) = (s \<in> set language_tags)"
| "is_language_tag _ = False"

definition required :: "(json \<Rightarrow> bool) \<Rightarrow> json option \<Rightarrow> bool" where
  "required P v = (case v of None \<Rightarrow> False | Some x \<Rightarrow> P x)"

definition optional :: "(json \<Rightarrow> bool) \<Rightarrow> json option \<Rightarrow> bool" where
  "optional P v = (case v of None \<Rightarrow> True | Some x \<Rightarrow> P x)"

fun is_file_spec :: "json \<Rightarrow> bool" where
  "is_file_spec (JObject kv) =
     (required is_string (map_of kv ''path'')
      \<and> required is_language_tag (map_of kv ''language'')
      \<and> optional is_string (map_of kv ''purpose'')
      \<and> optional is_string_list (map_of kv ''dependencies''))"
| "is_file_spec _ = False"

fun is_file_spec_list :: "json \<Rightarrow> bool" where
  "is_file_spec_list (JArray xs) = list_all is_file_spec xs"
| "is_file_spec_list _ = False"

fun is_project_structure :: "json \<Rightarrow> bool" where
  "is_project_structure (JObject kv) =
     (required is_string (map_of kv ''name'') \<and> required is_file_spec_list (map_of kv ''files''))"
| "is_project_structure _ = False"

section \<open>Properties\<close>

lemma split_on_not_Nil: "split_on c s \<noteq> []"
  by (induction s) (auto split: list.splits)

lemma join_with_Cons: "ls \<noteq> [] \<Longrightarrow> join_with c (l # ls) = l @ c # join_with c ls"
  by (cases ls) auto

lemma join_split_on: "join_with c (split_on c s) = s"
proof (induction s)
  case Nil
  show ?case by simp
next
  case (Cons x xs)
  obtain l ls where sp: "split_on c xs = l # ls"
    using split_on_not_Nil [of c xs] by (cases "split_on c xs") auto
  show ?case
  proof (cases "x = c")
    case True
    with Cons show ?thesis by (simp add: join_with_Cons split_on_not_Nil)
  next
    case False
    with Cons sp show ?thesis by (cases ls) auto
  qed
qed

lemma fix_line_plain:
  assumes "i < length lines" "list_all (\<lambda>l. \<not> ends_with '':'' l) (butlast lines)"
  shows "fix_line lines i = rstrip (lines ! i)"
proof (cases "0 < i")
  case False
  then show ?thesis by (simp add: fix_line_def Let_def)
next
  case True
  with assms(1) have "i - 1 < length (butlast lines)" by simp
  then have "butlast lines ! (i - 1) \<in> set (butlast lines)" by (rule nth_mem)
  moreover have "butlast lines ! (i - 1) = lines ! (i - 1)"
    using \<open>i - 1 < length (butlast lines)\<close> by (simp add: nth_butlast)
  ultimately have "\<not> ends_with '':'' (lines ! (i - 1))"
    using assms(2) by (auto simp: list_all_iff)
  then show ?thesis by (simp add: fix_line_def Let_def)
qed

lemma fix_lines_plain:
  assumes "list_all (\<lambda>l. \<not> ends_with '':'' l) (butlast lines)"
  shows "map (fix_line lines) [0..<length lines] = map rstrip lines"
proof -
  have "map (fix_line lines) [0..<length lines] = map (\<lambda>i. rstrip (lines ! i)) [0..<length lines]"
    using assms by (simp add: fix_line_plain)
  also have "\<dots> = map rstrip (map ((!) lines) [0..<length lines])"
    by simp
  also have "\<dots> = map rstrip lines"
    by (simp only: map_nth)
  finally show ?thesis .
qed


subsection \<open>Syntax repair\<close>

text \<open>
  C8, as stated, fails: a text in which no line follows a colon is still changed when one of
  its lines ends with whitespace, because every line is stripped on the right.
\<close>

theorem fix_python_syntax_unchanged_counterexample:
  "list_all (\<lambda>l. \<not> ends_with '':'' l) (butlast (split_on newline ''x = 1 ''))
   \<and> fix_python_syntax ''x = 1 '' [] = ''x = 1''
   \<and> fix_python_syntax ''x = 1 '' [] \<noteq> ''x = 1 ''"
  by (simp add: fix_python_syntax_def fix_line_def newline_def ends_with_def starts_with_def
      rstrip_def is_space_def)

text \<open>
  C8, amended: the repair maps \<open>if True:\<newline>print('x')\<close> to the same text with the second
  line indented by four spaces. For every input in which no line before the last ends
  with a colon, it returns the lines of the input, each stripped of its trailing
  whitespace, joined again; when, in addition, no line has trailing whitespace, that is the
  input unchanged.
\<close>

theorem fix_python_syntax_spec:
  "fix_python_syntax ''if True:\<newline>print('x')'' msg = ''if True:\<newline>    print('x')''
   \<and> (list_all (\<lambda>l. \<not> ends_with '':'' l) (butlast (split_on newline code)) \<longrightarrow>
        fix_python_syntax code msg = join_with newline (map rstrip (split_on newline code))
        \<and> (list_all (\<lambda>l. rstrip l = l) (split_on newline code) \<longrightarrow>
             fix_python_syntax code msg = code))"
proof (intro conjI impI)
  show "fix_python_syntax ''if True:\<newline>print('x')'' msg = ''if True:\<newline>    print('x')''"
    by (simp add: fix_python_syntax_def fix_line_def newline_def ends_with_def starts_with_def
        rstrip_def is_space_def)
next
  assume a: "list_all (\<lambda>l. \<not> ends_with '':'' l) (butlast (split_on newline code))"
  then show plain: "fix_python_syntax code msg = join_with newline (map rstrip (split_on newline code))"
    by (simp add: fix_python_syntax_def Let_def fix_lines_plain)
  assume "list_all (\<lambda>l. rstrip l = l) (split_on newline code)"
  then have "map rstrip (split_on newline code) = split_on newline code"
    by (simp add: list_all_iff map_idI)
  with plain show "fix_python_syntax code msg = code"
    by (simp add: join_split_on)
qed

theorem fix_python_syntax_spec_witness:
  "list_all (\<lambda>l. \<not> ends_with '':'' l) (butlast (split_on newline ''x = 1  \<newline>y = 2''))
   \<and> fix_python_syntax ''x = 1  \<newline>y = 2'' [] = ''x = 1\<newline>y = 2''
   \<and> list_all (\<lambda>l. rstrip l = l) (split_on newline ''a = 1\<newline>b = 2'')
   \<and> fix_python_syntax ''a = 1\<newline>b = 2'' [] = ''a = 1\<newline>b = 2''"
proof -
  have h1: "list_all (\<lambda>l. \<not> ends_with '':'' l) (butlast (split_on newline ''x = 1  \<newline>y = 2''))"
    by (simp add: newline_def ends_with_def)
  have h2: "list_all (\<lambda>l. \<not> ends_with '':'' l) (butlast (split_on newline ''a = 1\<newline>b = 2''))"
    by (simp add: newline_def ends_with_def)
  have h3: "list_all (\<lambda>l. rstrip l = l) (split_on newline ''a = 1\<newline>b = 2'')"
    by (simp add: newline_def rstrip_def is_space_def)
  have "fix_python_syntax ''x = 1  \<newline>y = 2'' []
        = join_with newline (map rstrip (split_on newline ''x = 1  \<newline>y = 2''))"
    using fix_python_syntax_spec [of "[]" "''x = 1  \<newline>y = 2''"] h1 by blast
  then have r1: "fix_python_syntax ''x = 1  \<newline>y = 2'' [] = ''x = 1\<newline>y = 2''"
    by (simp add: newline_def rstrip_def is_space_def)
  have r2: "fix_python_syntax ''a = 1\<newline>b = 2'' [] = ''a = 1\<newline>b = 2''"
    using fix_python_syntax_spec [of "[]" "''a = 1\<newline>b = 2''"] h2 h3 by blast
  from h1 r1 h3 r2 show ?thesis by blast
qed


subsection \<open>Dependency extraction\<close>

lemma first_occurrences_snoc:
  "first_occurrences (xs @ [x]) =
     (if x \<in> set xs then first_occurrences xs else first_occurrences xs @ [x])"
  by (simp add: first_occurrences_def)

lemma set_first_occurrences: "set (first_occurrences xs) = set xs"
  by (simp add: first_occurrences_def)

lemma distinct_first_occurrences: "distinct (first_occurrences xs)"
  by (simp add: first_occurrences_def)

lemma foldl_add_python_dep:
  "foldl add_python_dep [] gs =
     first_occurrences
       (filter (\<lambda>d. \<not> starts_with ''_'' d) (map (\<lambda>g. hd (split_on (CHR ''.'') g)) gs))"
proof (induction gs rule: rev_induct)
  case Nil
  show ?case by (simp add: first_occurrences_def)
next
  case (snoc g gs)
  then show ?case
    by (simp add: add_python_dep_def Let_def first_occurrences_snoc set_first_occurrences)
qed

text \<open>
  C9: for the tag \<open>python\<close>, the three-line example gives \<open>os\<close> and \<open>collections\<close>; and on
  every text the result is made of the first dot-separated segments of the matched import
  targets, without the segments that start with an underscore, each kept once at its first
  occurrence, so that no name is repeated.
\<close>

theorem extract_dependencies_python:
  "extract_dependencies ''import os\<newline>from collections import OrderedDict\<newline>import _private''
     ''python'' = [''os'', ''collections'']
   \<and> extract_dependencies code ''python'' =
       first_occurrences
         (filter (\<lambda>d. \<not> starts_with ''_'' d)
            (map (\<lambda>g. hd (split_on (CHR ''.'') g)) (finditer python_import True code)))
   \<and> distinct (extract_dependencies code ''python'')"
proof (intro conjI)
  show "extract_dependencies ''import os\<newline>from collections import OrderedDict\<newline>import _private''
     ''python'' = [''os'', ''collections'']"
    by code_simp
  show eq: "extract_dependencies code ''python'' =
       first_occurrences
         (filter (\<lambda>d. \<not> starts_with ''_'' d)
            (map (\<lambda>g. hd (split_on (CHR ''.'') g)) (finditer python_import True code)))"
    by (simp add: extract_dependencies_def foldl_add_python_dep)
  show "distinct (extract_dependencies code ''python'')"
    unfolding eq by (rule distinct_first_occurrences)
qed

text \<open>
  C2, as stated, fails: on the example the name found by the \<open>require\<close> pattern comes
  first, although its statement is the last of the text.
\<close>

theorem extract_dependencies_javascript_counterexample:
  "extract_dependencies
     ''import './local'\<newline>import React from 'react'\<newline>const x = require('lodash/fp')''
     ''javascript'' \<noteq> [''react'', ''lodash'']"
  by code_simp

text \<open>
  C2, amended: for the tag \<open>javascript\<close> the names come pattern by pattern: those of the
  \<open>require\<close> calls in the order of the text, then those of the \<open>import ... from\<close>
  statements, then those of the bare imports. On the example the result is \<open>lodash\<close>,
  \<open>react\<close>: the relative import is left out and \<open>lodash/fp\<close> is cut to its first segment.
\<close>

theorem extract_dependencies_javascript:
  "extract_dependencies
     ''import './local'\<newline>import React from 'react'\<newline>const x = require('lodash/fp')''
     ''javascript'' = [''lodash'', ''react'']
   \<and> extract_dependencies code ''javascript'' =
       foldl add_js_dep []
         (finditer js_require True code @ finditer js_import_from True code
          @ finditer js_import_bare True code)"
proof (intro conjI)
  show "extract_dependencies
     ''import './local'\<newline>import React from 'react'\<newline>const x = require('lodash/fp')''
     ''javascript'' = [''lodash'', ''react'']"
    by code_simp
  show "extract_dependencies code ''javascript'' =
       foldl add_js_dep []
         (finditer js_require True code @ finditer js_import_from True code
          @ finditer js_import_bare True code)"
    by (simp add: extract_dependencies_def js_patterns_def)
qed

text \<open>
  C3 does not hold of the code. The \<open>javascript\<close> loop tests the whole import path
  against the list but appends only its first segment, so two paths with the same first
  segment give the same name twice; the \<open>python\<close> loop, which has no test for a relative
  target, records the empty name for \<open>from .mod import x\<close>.
\<close>

theorem extract_dependencies_duplicates:
  "extract_dependencies ''require('lodash/fp')\<newline>require('lodash/map')'' ''javascript''
     = [''lodash'', ''lodash'']
   \<and> \<not> distinct (extract_dependencies ''require('lodash/fp')\<newline>require('lodash/map')'' ''javascript'')
   \<and> extract_dependencies ''from .mod import x'' ''python'' = [[]]"
  by code_simp

subsection \<open>Code cleaning\<close>

lemma backtick_runs_induct [case_names Nil Three Other One Two OneThen TwoThen]:
  assumes "P []"
    and "\<And>r. P r \<Longrightarrow> P (CHR 0x60 # CHR 0x60 # CHR 0x60 # r)"
    and "\<And>c r. c \<noteq> CHR 0x60 \<Longrightarrow> P r \<Longrightarrow> P (c # r)"
    and "P [CHR 0x60]"
    and "P [CHR 0x60, CHR 0x60]"
    and "\<And>d r. d \<noteq> CHR 0x60 \<Longrightarrow> P r \<Longrightarrow> P (CHR 0x60 # d # r)"
    and "\<And>d r. d \<noteq> CHR 0x60 \<Longrightarrow> P r \<Longrightarrow> P (CHR 0x60 # CHR 0x60 # d # r)"
  shows "P s"
proof (induction s rule: length_induct)
  case (1 xs)
  show ?case
  proof (cases xs)
    case Nil
    with assms(1) show ?thesis by simp
  next
    case c1: (Cons a as)
    show ?thesis
    proof (cases "a = CHR 0x60")
      case False
      with c1 1 assms(3) show ?thesis by simp
    next
      case a: True
      show ?thesis
      proof (cases as)
        case Nil
        with c1 a assms(4) show ?thesis by simp
      next
        case c2: (Cons b bs)
        show ?thesis
        proof (cases "b = CHR 0x60")
          case False
          with c1 c2 a 1 assms(6) show ?thesis by simp
        next
          case b: True
          show ?thesis
          proof (cases bs)
            case Nil
            with c1 c2 a b assms(5) show ?thesis by simp
          next
            case c3: (Cons d ds)
            show ?thesis
            proof (cases "d = CHR 0x60")
              case False
              with c1 c2 c3 a b 1 assms(7) show ?thesis by simp
            next
              case True
              with c1 c2 c3 a b 1 assms(2) show ?thesis by simp
            qed
          qed
        qed
      qed
    qed
  qed
qed

lemma no_fence_after_replace: "\<not> contains ''```'' (replace_del ''```'' s)"
  by (induction s rule: backtick_runs_induct) (simp_all add: starts_with_def)

lemma starts_with_iff: "starts_with p s \<longleftrightarrow> (\<exists>b. s = p @ b)"
proof
  assume "starts_with p s"
  then have "s = p @ drop (length p) s"
    unfolding starts_with_def by (metis append_take_drop_id)
  then show "\<exists>b. s = p @ b" ..
next
  assume "\<exists>b. s = p @ b"
  then show "starts_with p s" by (auto simp: starts_with_def)
qed

lemma contains_iff: "contains p s \<longleftrightarrow> (\<exists>a b. s = a @ p @ b)"
proof (induction s)
  case Nil
  show ?case by auto
next
  case (Cons c cs)
  show ?case
  proof
    assume "contains p (c # cs)"
    then consider "starts_with p (c # cs)" | "contains p cs" by auto
    then show "\<exists>a b. c # cs = a @ p @ b"
    proof cases
      case 1
      then obtain b where "c # cs = p @ b" by (auto simp: starts_with_iff)
      then have "c # cs = [] @ p @ b" by simp
      then show ?thesis by blast
    next
      case 2
      with Cons obtain a b where "cs = a @ p @ b" by blast
      then have "c # cs = (c # a) @ p @ b" by simp
      then show ?thesis by blast
    qed
  next
    assume "\<exists>a b. c # cs = a @ p @ b"
    then obtain a b where ab: "c # cs = a @ p @ b" by blast
    show "contains p (c # cs)"
    proof (cases a)
      case Nil
      with ab have "starts_with p (c # cs)" by (auto simp: starts_with_iff)
      then show ?thesis by simp
    next
      case (Cons x a')
      with ab have "cs = a' @ p @ b" by simp
      with Cons.IH have "contains p cs" by blast
      then show ?thesis by simp
    qed
  qed
qed

lemma matches_somewhere_iff:
  "matches_somewhere m s \<longleftrightarrow> (\<exists>a b. s = a @ b \<and> m b \<noteq> None)"
proof (induction s)
  case Nil
  show ?case by auto
next
  case (Cons c cs)
  show ?case
  proof
    assume "matches_somewhere m (c # cs)"
    then consider "m (c # cs) \<noteq> None" | "matches_somewhere m cs" by auto
    then show "\<exists>a b. c # cs = a @ b \<and> m b \<noteq> None"
    proof cases
      case 1
      then have "c # cs = [] @ (c # cs) \<and> m (c # cs) \<noteq> None" by simp
      then show ?thesis by blast
    next
      case 2
      with Cons obtain a b where "cs = a @ b" "m b \<noteq> None" by blast
      then have "c # cs = (c # a) @ b \<and> m b \<noteq> None" by simp
      then show ?thesis by blast
    qed
  next
    assume "\<exists>a b. c # cs = a @ b \<and> m b \<noteq> None"
    then obtain a b where ab: "c # cs = a @ b" "m b \<noteq> None" by blast
    show "matches_somewhere m (c # cs)"
    proof (cases a)
      case Nil
      with ab(1) have "b = c # cs" by simp
      with ab(2) show ?thesis by simp
    next
      case (Cons x a')
      with ab have "cs = a' @ b" by simp
      with ab(2) Cons.IH have "matches_somewhere m cs" by blast
      then show ?thesis by simp
    qed
  qed
qed

lemma lazy_line: 
  "lazy_star not_newline (lit [newline] Some) s =
     (if newline \<in> set s
      then Some (takeWhile (\<lambda>c. c \<noteq> newline) s, tl (dropWhile (\<lambda>c. c \<noteq> newline) s))
      else None)"
  by (induction s) (auto simp: lit_def strip_prefix_def starts_with_def not_newline_def)

lemma echo_eq:
  "echo m s =
     (if lower (take (length m) s) = lower m \<and> newline \<in> set (drop (length m) s)
      then Some (takeWhile (\<lambda>c. c \<noteq> newline) (drop (length m) s),
                 tl (dropWhile (\<lambda>c. c \<noteq> newline) (drop (length m) s)))
      else None)"
  by (simp add: echo_def lit_ci_def lazy_line)

lemma echo_matches_iff:
  "echo m s \<noteq> None \<longleftrightarrow> lower (take (length m) s) = lower m \<and> newline \<in> set (drop (length m) s)"
  by (simp add: echo_eq)

lemma re_sub_del_no_match: "\<not> matches_somewhere m s \<Longrightarrow> re_sub_del m s = s"
  by (induction s) (auto split: option.splits)

lemma fence_open_starts: "fence_open s \<noteq> None \<Longrightarrow> starts_with ''```'' s"
  unfolding fence_open_def lit_def strip_prefix_def by (cases "starts_with ''```'' s") auto

lemma matches_fence_open_contains: "matches_somewhere fence_open s \<Longrightarrow> contains ''```'' s"
proof (induction s)
  case Nil
  then show ?case by (simp add: fence_open_def lit_def strip_prefix_def starts_with_def)
next
  case (Cons c cs)
  then show ?case using fence_open_starts [of "c # cs"] by auto
qed

lemma replace_del_absent: "\<not> contains old s \<Longrightarrow> replace_del old s = s"
  by (induction s) auto

lemma remove_fences_absent: "\<not> contains ''```'' s \<Longrightarrow> remove_fences s = s"
proof -
  assume a: "\<not> contains ''```'' s"
  then have "\<not> matches_somewhere fence_open s"
    using matches_fence_open_contains by blast
  then have "re_sub_del fence_open s = s" by (rule re_sub_del_no_match)
  with a show ?thesis by (simp add: remove_fences_def replace_del_absent)
qed

lemma remove_echoes_absent: "\<not> has_echo s \<Longrightarrow> remove_echoes s = s"
  by (simp add: has_echo_def remove_echoes_def re_sub_del_no_match)

lemma rstrip_prefix: "\<exists>b. l = rstrip l @ b"
proof -
  have "rev (dropWhile is_space (rev l)) @ rev (takeWhile is_space (rev l))
        = rev (takeWhile is_space (rev l) @ dropWhile is_space (rev l))"
    by (simp only: rev_append)
  also have "\<dots> = l" by simp
  finally have "l = rstrip l @ rev (takeWhile is_space (rev l))"
    by (simp add: rstrip_def)
  then show ?thesis ..
qed

lemma strip_segment: "\<exists>a b. s = a @ strip s @ b"
proof -
  obtain b where b: "lstrip s = rstrip (lstrip s) @ b"
    using rstrip_prefix by blast
  have "s = takeWhile is_space s @ lstrip s" by (simp add: lstrip_def)
  with b have "s = takeWhile is_space s @ strip s @ b" by (simp add: strip_def)
  then show ?thesis by blast
qed

lemma contains_segment: "contains p s \<Longrightarrow> contains p (a @ s @ b)"
proof -
  assume "contains p s"
  then obtain x y where "s = x @ p @ y" by (auto simp: contains_iff)
  then have "a @ s @ b = (a @ x) @ p @ (y @ b)" by simp
  then show ?thesis unfolding contains_iff by blast
qed

lemma echo_extend: "echo m t \<noteq> None \<Longrightarrow> echo m (t @ b) \<noteq> None"
proof -
  assume "echo m t \<noteq> None"
  then have h: "lower (take (length m) t) = lower m" "newline \<in> set (drop (length m) t)"
    by (simp_all only: echo_matches_iff)
  from h(1) have "length (take (length m) t) = length m"
    by (metis length_map lower_def)
  then have "length m \<le> length t" by simp
  with h show ?thesis unfolding echo_matches_iff by simp
qed

lemma echo_segment:
  "matches_somewhere (echo m) s \<Longrightarrow> matches_somewhere (echo m) (a @ s @ b)"
proof -
  assume "matches_somewhere (echo m) s"
  then obtain x y where xy: "s = x @ y" "echo m y \<noteq> None"
    by (auto simp: matches_somewhere_iff)
  then have "a @ s @ b = (a @ x) @ (y @ b)" "echo m (y @ b) \<noteq> None"
    using echo_extend by simp_all
  then show ?thesis unfolding matches_somewhere_iff by blast
qed

lemma contains_strip: "contains p (strip s) \<Longrightarrow> contains p s"
  using strip_segment [of s] contains_segment by metis

lemma has_echo_strip: "has_echo (strip s) \<Longrightarrow> has_echo s"
  using strip_segment [of s] echo_segment unfolding has_echo_def by metis

lemma dropWhile_rstrip:
  "dropWhile P (rev (dropWhile P (rev (dropWhile P s)))) = rev (dropWhile P (rev (dropWhile P s)))"
proof -
  define t where "t = dropWhile P s"
  define u where "u = rev (dropWhile P (rev t))"
  have "rev (dropWhile P (rev t)) @ rev (takeWhile P (rev t))
        = rev (takeWhile P (rev t) @ dropWhile P (rev t))"
    by (simp only: rev_append)
  also have "\<dots> = t" by simp
  finally have t: "t = u @ rev (takeWhile P (rev t))" by (simp add: u_def)
  have "dropWhile P u = u"
  proof (cases u)
    case Nil
    then show ?thesis by simp
  next
    case (Cons x xs)
    with t have "t = x # xs @ rev (takeWhile P (rev t))" by simp
    then have "hd (dropWhile P s) = x" "dropWhile P s \<noteq> []"
      unfolding t_def by (metis list.sel(1), metis list.distinct(1))
    then have "\<not> P x" using hd_dropWhile by metis
    with Cons show ?thesis by simp
  qed
  then show ?thesis by (simp add: u_def t_def)
qed

lemma strip_idem: "strip (strip s) = strip s"
  by (simp add: strip_def lstrip_def rstrip_def dropWhile_rstrip)

lemma starts_fence_sep:
  "c \<noteq> CHR 0x60 \<Longrightarrow> starts_with ''```'' (a @ c # b) = starts_with ''```'' a"
proof (cases a)
  case Nil
  assume "c \<noteq> CHR 0x60"
  with Nil show ?thesis by (auto simp: starts_with_def)
next
  case c1: (Cons x xs)
  assume c: "c \<noteq> CHR 0x60"
  show ?thesis
  proof (cases xs)
    case Nil
    with c1 c show ?thesis by (auto simp: starts_with_def)
  next
    case c2: (Cons y ys)
    show ?thesis
    proof (cases ys)
      case Nil
      with c1 c2 c show ?thesis by (auto simp: starts_with_def)
    next
      case (Cons z zs)
      with c1 c2 show ?thesis by (simp add: starts_with_def)
    qed
  qed
qed

lemma contains_fence_sep:
  "c \<noteq> CHR 0x60 \<Longrightarrow>
   contains ''```'' (a @ c # b) \<longleftrightarrow> contains ''```'' a \<or> contains ''```'' b"
proof (induction a)
  case Nil
  then show ?case by (auto simp: starts_with_def)
next
  case (Cons x a)
  have "starts_with ''```'' ((x # a) @ c # b) = starts_with ''```'' (x # a)"
    using Cons.prems by (rule starts_fence_sep)
  with Cons show ?case by auto
qed

lemma newline_iff: "d = newline \<longleftrightarrow> (of_char d :: nat) = 10"
proof -
  have "(of_char newline :: nat) = 10" by (simp add: newline_def)
  then show ?thesis by (metis of_char_eq_iff)
qed

lemma lower_char_newline: "lower_char c = newline \<longleftrightarrow> c = newline"
proof (cases "(65 \<le> (of_char c :: nat) \<and> (of_char c :: nat) \<le> 90)
               \<or> (192 \<le> (of_char c :: nat) \<and> (of_char c :: nat) \<le> 222 \<and> (of_char c :: nat) \<noteq> 215)")
  case False
  then have "lower_char c = c" by (auto simp: lower_char_def Let_def)
  then show ?thesis by simp
next
  case True
  then have l: "lower_char c = char_of ((of_char c :: nat) + 32)"
    by (simp add: lower_char_def Let_def)
  from True have "((of_char c :: nat) + 32) mod 256 = of_char c + 32" by auto
  then have "(of_char (lower_char c) :: nat) = of_char c + 32"
    by (simp add: l)
  with True have "(of_char (lower_char c) :: nat) \<noteq> 10" "(of_char c :: nat) \<noteq> 10" by auto
  then show ?thesis by (simp add: newline_iff)
qed

lemma occurs_ci_iff:
  "occurs_ci m s \<longleftrightarrow> (\<exists>x y. s = x @ y \<and> lower (take (length m) y) = lower m)"
proof (induction s)
  case Nil
  show ?case by (auto simp: lower_def)
next
  case (Cons c cs)
  show ?case
  proof
    assume "occurs_ci m (c # cs)"
    then consider "lower (take (length m) (c # cs)) = lower m" | "occurs_ci m cs" by auto
    then show "\<exists>x y. c # cs = x @ y \<and> lower (take (length m) y) = lower m"
    proof cases
      case 1
      then have "c # cs = [] @ (c # cs) \<and> lower (take (length m) (c # cs)) = lower m" by simp
      then show ?thesis by blast
    next
      case 2
      with Cons obtain x y where "cs = x @ y" "lower (take (length m) y) = lower m" by blast
      then have "c # cs = (c # x) @ y \<and> lower (take (length m) y) = lower m" by simp
      then show ?thesis by blast
    qed
  next
    assume "\<exists>x y. c # cs = x @ y \<and> lower (take (length m) y) = lower m"
    then obtain x y where xy: "c # cs = x @ y" "lower (take (length m) y) = lower m" by blast
    show "occurs_ci m (c # cs)"
    proof (cases x)
      case Nil
      with xy(1) have "y = c # cs" by simp
      with xy(2) show ?thesis by simp
    next
      case (Cons x0 x')
      with xy have "cs = x' @ y" by simp
      with xy(2) Cons.IH have "occurs_ci m cs" by blast
      then show ?thesis by simp
    qed
  qed
qed

lemma lower_take_length:
  "lower (take (length m) y) = lower m \<Longrightarrow> length m \<le> length y"
proof -
  assume "lower (take (length m) y) = lower m"
  then have "length (lower (take (length m) y)) = length (lower m)" by simp
  then show ?thesis by (simp add: lower_def)
qed

lemma occurs_ci_extend: "occurs_ci m s \<Longrightarrow> occurs_ci m (s @ b)"
proof -
  assume "occurs_ci m s"
  then obtain x y where xy: "s = x @ y" "lower (take (length m) y) = lower m"
    by (auto simp: occurs_ci_iff)
  from xy(2) have "length m \<le> length y" by (rule lower_take_length)
  with xy have "s @ b = x @ (y @ b) \<and> lower (take (length m) (y @ b)) = lower m" by simp
  then show ?thesis unfolding occurs_ci_iff by blast
qed

lemma echo_at_sep:
  assumes "newline \<notin> set (lower m)"
  shows "echo m (a @ newline # b) \<noteq> None \<longleftrightarrow> lower (take (length m) a) = lower m"
proof
  assume "lower (take (length m) a) = lower m"
  moreover from this have "length m \<le> length a" by (rule lower_take_length)
  ultimately show "echo m (a @ newline # b) \<noteq> None"
    unfolding echo_matches_iff by simp
next
  assume "echo m (a @ newline # b) \<noteq> None"
  then have l: "lower (take (length m) (a @ newline # b)) = lower m"
    unfolding echo_matches_iff by simp
  have "length m \<le> length a"
  proof (rule ccontr)
    assume "\<not> length m \<le> length a"
    then have "take (length m) (a @ newline # b) = a @ newline # take (length m - Suc (length a)) b"
      by (simp add: take_Cons')
    then have "newline \<in> set (take (length m) (a @ newline # b))" by simp
    then have "lower_char newline \<in> lower_char ` set (take (length m) (a @ newline # b))"
      by (rule imageI)
    then have "lower_char newline \<in> set (lower (take (length m) (a @ newline # b)))"
      unfolding lower_def by (simp only: set_map)
    moreover have "lower_char newline = newline" by (simp add: lower_char_newline)
    ultimately show False using l assms by simp
  qed
  with l show "lower (take (length m) a) = lower m" by simp
qed

lemma echo_sep:
  assumes "m \<noteq> []" "newline \<notin> set (lower m)"
  shows "matches_somewhere (echo m) (a @ newline # b)
         \<longleftrightarrow> occurs_ci m a \<or> matches_somewhere (echo m) b"
proof (induction a)
  case Nil
  have "echo m ([] @ newline # b) \<noteq> None \<longleftrightarrow> lower (take (length m) []) = lower m"
    using assms(2) by (rule echo_at_sep)
  with assms(1) show ?case by (simp add: lower_def)
next
  case (Cons x a)
  have "echo m ((x # a) @ newline # b) \<noteq> None \<longleftrightarrow> lower (take (length m) (x # a)) = lower m"
    using assms(2) by (rule echo_at_sep)
  with Cons show ?case by simp
qed

lemma fix_line_cases:
  "fix_line lines i = rstrip (lines ! i) \<or> fix_line lines i = ''    '' @ rstrip (lines ! i)"
  by (simp add: fix_line_def Let_def)

lemma join_transfer:
  assumes sep: "\<And>a b. Q (a @ newline # b) \<longleftrightarrow> R a \<or> Q b"
    and relQ: "\<And>l' l. rel l' l \<Longrightarrow> Q l' \<Longrightarrow> Q l"
    and relR: "\<And>l' l. rel l' l \<Longrightarrow> R l' \<Longrightarrow> R l"
    and ls: "list_all2 rel ls' ls"
  shows "Q (join_with newline ls') \<Longrightarrow> Q (join_with newline ls)"
  using ls
proof (induction rule: list_all2_induct)
  case Nil
  then show ?case by simp
next
  case (Cons l' ls' l ls)
  show ?case
  proof (cases "ls' = []")
    case True
    with Cons.hyps(2) have "ls = []" by simp
    with True Cons.prems Cons.hyps(1) relQ show ?thesis by auto
  next
    case False
    with Cons.hyps(2) have ne: "ls \<noteq> []" by auto
    from False Cons.prems have "R l' \<or> Q (join_with newline ls')"
      by (simp add: join_with_Cons sep)
    with Cons.hyps(1) Cons.IH relR have "R l \<or> Q (join_with newline ls)" by blast
    with ne show ?thesis by (simp add: join_with_Cons sep)
  qed
qed

lemma fix_lines_rel:
  "list_all2 (\<lambda>l' l. l' = rstrip l \<or> l' = ''    '' @ rstrip l)
     (map (fix_line lines) [0..<length lines]) lines"
  unfolding list_all2_conv_all_nth using fix_line_cases by simp

lemma fix_transfer:
  assumes sep: "\<And>a b. Q (a @ newline # b) \<longleftrightarrow> R a \<or> Q b"
    and relQ: "\<And>l' l. l' = rstrip l \<or> l' = ''    '' @ rstrip l \<Longrightarrow> Q l' \<Longrightarrow> Q l"
    and relR: "\<And>l' l. l' = rstrip l \<or> l' = ''    '' @ rstrip l \<Longrightarrow> R l' \<Longrightarrow> R l"
  shows "Q (fix_python_syntax s e) \<Longrightarrow> Q s"
proof -
  assume "Q (fix_python_syntax s e)"
  then have "Q (join_with newline (map (fix_line (split_on newline s)) [0..<length (split_on newline s)]))"
    by (simp add: fix_python_syntax_def Let_def)
  then have "Q (join_with newline (split_on newline s))"
  proof (rule join_transfer [where Q = Q and R = R
        and rel = "\<lambda>l' l. l' = rstrip l \<or> l' = ''    '' @ rstrip l", rotated 4])
    show "Q (a @ newline # b) \<longleftrightarrow> R a \<or> Q b" for a b by (rule sep)
    show "Q l" if "l' = rstrip l \<or> l' = ''    '' @ rstrip l" "Q l'" for l' l
      using that by (rule relQ)
    show "R l" if "l' = rstrip l \<or> l' = ''    '' @ rstrip l" "R l'" for l' l
      using that by (rule relR)
    show "list_all2 (\<lambda>l' l. l' = rstrip l \<or> l' = ''    '' @ rstrip l)
      (map (fix_line (split_on newline s)) [0..<length (split_on newline s)]) (split_on newline s)"
      by (rule fix_lines_rel)
  qed
  then show "Q s" by (simp add: join_split_on)
qed

lemma contains_fence_rel:
  assumes "l' = rstrip l \<or> l' = ''    '' @ rstrip l" "contains ''```'' l'"
  shows "contains ''```'' l"
proof -
  from assms have "contains ''```'' (rstrip l)"
    by (auto simp: starts_with_def)
  then have "contains ''```'' ([] @ rstrip l @ b)" for b
    by (rule contains_segment)
  then show ?thesis using rstrip_prefix [of l] by (metis append_Nil)
qed

lemma contains_fence_fix:
  "contains ''```'' (fix_python_syntax s e) \<Longrightarrow> contains ''```'' s"
proof (rule fix_transfer [of "contains ''```''" "contains ''```''"])
  show "contains ''```'' (a @ newline # b) \<longleftrightarrow> contains ''```'' a \<or> contains ''```'' b" for a b
    by (rule contains_fence_sep) (simp add: newline_def)
qed (auto intro: contains_fence_rel)

lemma space_first:
  "m \<noteq> [] \<Longrightarrow> hd (lower m) \<noteq> CHR '' '' \<Longrightarrow> lower (take (length m) (CHR '' '' # u)) \<noteq> lower m"
  by (cases m) (auto simp: lower_def lower_char_def)

lemma pad_occurs:
  "m \<noteq> [] \<Longrightarrow> hd (lower m) \<noteq> CHR '' '' \<Longrightarrow> occurs_ci m (''    '' @ t) = occurs_ci m t"
  using space_first [of m] by simp

lemma pad_matches:
  "m \<noteq> [] \<Longrightarrow> hd (lower m) \<noteq> CHR '' '' \<Longrightarrow>
   matches_somewhere (echo m) (''    '' @ t) = matches_somewhere (echo m) t"
  using space_first [of m] by (simp add: echo_eq)

lemma occurs_rel:
  assumes "m \<noteq> []" "hd (lower m) \<noteq> CHR '' ''"
    and "l' = rstrip l \<or> l' = ''    '' @ rstrip l" "occurs_ci m l'"
  shows "occurs_ci m l"
proof -
  from assms have "occurs_ci m (rstrip l)" using pad_occurs [of m "rstrip l"] by auto
  then have "occurs_ci m (rstrip l @ b)" for b by (rule occurs_ci_extend)
  then show ?thesis using rstrip_prefix [of l] by metis
qed

lemma matches_rel:
  assumes "m \<noteq> []" "hd (lower m) \<noteq> CHR '' ''"
    and "l' = rstrip l \<or> l' = ''    '' @ rstrip l" "matches_somewhere (echo m) l'"
  shows "matches_somewhere (echo m) l"
proof -
  from assms have "matches_somewhere (echo m) (rstrip l)"
    using pad_matches [of m "rstrip l"] by auto
  then have "matches_somewhere (echo m) ([] @ rstrip l @ b)" for b by (rule echo_segment)
  then show ?thesis using rstrip_prefix [of l] by (metis append_Nil)
qed

lemma matches_echo_fix:
  assumes "m \<noteq> []" "hd (lower m) \<noteq> CHR '' ''" "newline \<notin> set (lower m)"
  shows "matches_somewhere (echo m) (fix_python_syntax s e) \<Longrightarrow> matches_somewhere (echo m) s"
proof (rule fix_transfer [of "matches_somewhere (echo m)" "occurs_ci m"])
  show "matches_somewhere (echo m) (a @ newline # b)
        \<longleftrightarrow> occurs_ci m a \<or> matches_somewhere (echo m) b" for a b
    using assms(1,3) by (rule echo_sep)
next
  show "matches_somewhere (echo m) l" if "l' = rstrip l \<or> l' = ''    '' @ rstrip l"
    "matches_somewhere (echo m) l'" for l' l
    using assms(1,2) that by (rule matches_rel)
next
  show "occurs_ci m l" if "l' = rstrip l \<or> l' = ''    '' @ rstrip l" "occurs_ci m l'" for l' l
    using assms(1,2) that by (rule occurs_rel)
qed

lemma has_echo_fix: "has_echo (fix_python_syntax s e) \<Longrightarrow> has_echo s"
proof -
  have 1: "''# Response:'' \<noteq> []" "hd (lower ''# Response:'') \<noteq> CHR '' ''"
    "newline \<notin> set (lower ''# Response:'')"
    by code_simp+
  have 2: "''// Response:'' \<noteq> []" "hd (lower ''// Response:'') \<noteq> CHR '' ''"
    "newline \<notin> set (lower ''// Response:'')"
    by code_simp+
  assume "has_echo (fix_python_syntax s e)"
  then show ?thesis
    unfolding has_echo_def using matches_echo_fix [OF 1] matches_echo_fix [OF 2] by blast
qed

lemma clean_other:
  "language \<noteq> ''python'' \<Longrightarrow>
   clean_generated_code ast_parse print_warning code language = Inr (strip (remove_echoes (remove_fences code)))"
  by (simp add: clean_generated_code_def Let_def)

lemma no_fence_remove_fences: "\<not> contains ''```'' (remove_fences code)"
  unfolding remove_fences_def by (rule no_fence_after_replace)

lemma clean_result_cases:
  assumes "clean_generated_code ast_parse print_warning code language = Inr out"
  shows "out = strip (remove_echoes (remove_fences code))
         \<or> (\<exists>msg. out = strip (fix_python_syntax (remove_echoes (remove_fences code)) msg))"
  using assms
  by (auto simp: clean_generated_code_def Let_def split: if_splits option.splits)

text \<open>
  C10, as stated, fails: the echo removal runs after the fence removal and can join
  backticks that its match kept apart.
\<close>

theorem clean_no_fence_counterexample:
  "\<forall>ast_parse print_warning.
     clean_generated_code ast_parse print_warning ''``# Response:\<newline>`'' ''text'' = Inr ''```''"
proof (intro allI)
  fix ast_parse :: "string \<Rightarrow> py_exception option" and print_warning :: console
  have "strip (remove_echoes (remove_fences ''``# Response:\<newline>`'')) = ''```''"
    by code_simp
  then show "clean_generated_code ast_parse print_warning ''``# Response:\<newline>`'' ''text'' = Inr ''```''"
    by (simp add: clean_other)
qed

text \<open>
  C10, amended: for every input string, the text left by the two fence-removal steps
  contains no triple backtick; and for every input from which the echo-removal step then
  removes nothing, and every language tag, the cleaned text that is returned contains no
  triple backtick.
\<close>

theorem clean_no_fence:
  "\<not> contains ''```'' (remove_fences code)
   \<and> (remove_echoes (remove_fences code) = remove_fences code \<longrightarrow>
        clean_generated_code ast_parse print_warning code language = Inr out \<longrightarrow>
        \<not> contains ''```'' out)"
proof (intro conjI impI)
  show nf: "\<not> contains ''```'' (remove_fences code)" by (rule no_fence_remove_fences)
  assume same: "remove_echoes (remove_fences code) = remove_fences code"
    and out: "clean_generated_code ast_parse print_warning code language = Inr out"
  from clean_result_cases [OF out] same
  consider "out = strip (remove_fences code)"
    | msg where "out = strip (fix_python_syntax (remove_fences code) msg)"
    by auto
  then show "\<not> contains ''```'' out"
  proof cases
    case 1
    with nf show ?thesis using contains_strip by blast
  next
    case 2
    with nf show ?thesis using contains_strip contains_fence_fix by blast
  qed
qed

theorem clean_no_fence_witness:
  "remove_echoes (remove_fences ''```python\<newline>x = 1\<newline>```'') = remove_fences ''```python\<newline>x = 1\<newline>```''
   \<and> clean_generated_code ast_parse_recorded utf8_console ''```python\<newline>x = 1\<newline>```'' ''python'' = Inr ''x = 1''
   \<and> \<not> contains ''```'' ''x = 1''"
proof -
  have 1: "remove_echoes (remove_fences ''```python\<newline>x = 1\<newline>```'') = remove_fences ''```python\<newline>x = 1\<newline>```''"
    by code_simp
  have 2: "clean_generated_code ast_parse_recorded utf8_console ''```python\<newline>x = 1\<newline>```'' ''python'' = Inr ''x = 1''"
    by code_simp
  from clean_no_fence [where code = "''```python\<newline>x = 1\<newline>```''" and ast_parse = ast_parse_recorded
      and print_warning = utf8_console and language = "''python''" and out = "''x = 1''"] 1 2
  show ?thesis by blast
qed

lemma re_sub_del_skip:
  "list_all (\<lambda>i. m (drop i (pre @ t)) = None) [0..<length pre] \<Longrightarrow>
   re_sub_del m (pre @ t) = pre @ re_sub_del m t"
proof (induction pre)
  case Nil
  show ?case by simp
next
  case (Cons c pre)
  from Cons.prems have all: "\<forall>i<Suc (length pre). m (drop i (c # pre @ t)) = None"
    by (auto simp: list_all_iff simp del: upt_Suc)
  then have "m (drop 0 (c # pre @ t)) = None" by blast
  then have here: "m (c # pre @ t) = None" by simp
  have "\<forall>i<length pre. m (drop i (pre @ t)) = None"
  proof (intro allI impI)
    fix i assume "i < length pre"
    then have "m (drop (Suc i) (c # pre @ t)) = None" using all by (metis Suc_less_eq)
    then show "m (drop i (pre @ t)) = None" by simp
  qed
  then have "list_all (\<lambda>i. m (drop i (pre @ t)) = None) [0..<length pre]"
    by (simp add: list_all_iff)
  with Cons.IH have "re_sub_del m (pre @ t) = pre @ re_sub_del m t" by blast
  with here show ?case by simp
qed

lemma echo_occurrence:
  assumes "lower occ = lower marker" "newline \<notin> set rest"
  shows "echo marker (occ @ rest @ newline # post) = Some (rest, post)"
proof -
  from assms(1) have "length (lower occ) = length (lower marker)" by simp
  then have len: "length occ = length marker" by (simp add: lower_def)
  have "takeWhile (\<lambda>c. c \<noteq> newline) (rest @ newline # post)
        = rest @ takeWhile (\<lambda>c. c \<noteq> newline) (newline # post)"
    by (rule takeWhile_append2) (use assms(2) in auto)
  then have "takeWhile (\<lambda>c. c \<noteq> newline) (rest @ newline # post) = rest"
    by simp
  moreover have "dropWhile (\<lambda>c. c \<noteq> newline) (rest @ newline # post)
        = dropWhile (\<lambda>c. c \<noteq> newline) (newline # post)"
    by (rule dropWhile_append2) (use assms(2) in auto)
  then have "dropWhile (\<lambda>c. c \<noteq> newline) (rest @ newline # post) = newline # post"
    by simp
  ultimately show ?thesis using len assms(1) by (simp add: echo_eq)
qed

lemma re_sub_del_occurrence:
  assumes "lower occ = lower marker" "newline \<notin> set rest"
  shows "re_sub_del (echo marker) (occ @ rest @ newline # post) = re_sub_del (echo marker) post"
proof -
  obtain c cs where t: "occ @ rest @ newline # post = c # cs"
    by (cases "occ @ rest @ newline # post") auto
  then have "length post < length (c # cs)"
    by (metis length_append length_Cons add_Suc_right less_Suc_eq_le le_add2 trans_le_add2)
  moreover have "echo marker (c # cs) = Some (rest, post)"
    unfolding t [symmetric] by (rule echo_occurrence [OF assms])
  ultimately have "re_sub_del (echo marker) (c # cs) = re_sub_del (echo marker) post"
    by simp
  with t show ?thesis by simp
qed

lemma echo_needs_newline: "matches_somewhere (echo marker) s \<Longrightarrow> newline \<in> set s"
proof -
  assume "matches_somewhere (echo marker) s"
  then obtain a b where ab: "s = a @ b" "echo marker b \<noteq> None"
    unfolding matches_somewhere_iff by blast
  from ab(2) have "newline \<in> set (drop (length marker) b)"
    unfolding echo_matches_iff by simp
  then have "newline \<in> set b" by (rule in_set_dropD)
  with ab(1) show ?thesis by simp
qed

text \<open>
  C4, as stated, fails: the two patterns are not anchored, so an echo that starts in the
  middle of a line is removed as well, up to and including the newline.
\<close>

theorem remove_echoes_anchor_counterexample:
  "remove_echoes ''x = 1 # Response: foo\<newline>y'' = ''x = 1 y''
   \<and> remove_echoes ''x = 1 // response: foo\<newline>y'' = ''x = 1 y''"
  by code_simp

text \<open>
  C4, amended: the prompt-echo removal is two passes over the text, the first for
  \<open># Response:\<close> and the second for \<open>// Response:\<close>, the letters in any case. A pass scans
  from the left; at the first place where its marker stands and a newline follows later, in
  the middle of a line as well as at its start, it removes the text from the marker up to
  and including that newline, and goes on behind it. A marker with no newline after it
  stays in the text, also when it stands at the start of the last line.
\<close>

theorem remove_echoes_spec:
  "remove_echoes code = re_sub_del (echo ''// Response:'') (re_sub_del (echo ''# Response:'') code)
   \<and> (list_all (\<lambda>i. echo marker (drop i (pre @ occ @ rest @ newline # post)) = None)
         [0..<length pre]
        \<and> lower occ = lower marker \<and> newline \<notin> set rest \<longrightarrow>
        re_sub_del (echo marker) (pre @ occ @ rest @ newline # post)
        = pre @ re_sub_del (echo marker) post)
   \<and> (list_all (\<lambda>i. echo marker (drop i (before @ tail)) = None) [0..<length before]
        \<and> newline \<notin> set tail \<longrightarrow>
        re_sub_del (echo marker) (before @ tail) = before @ tail)"
proof (intro conjI impI)
  show "remove_echoes code
        = re_sub_del (echo ''// Response:'') (re_sub_del (echo ''# Response:'') code)"
    by (simp add: remove_echoes_def)
next
  assume a: "list_all (\<lambda>i. echo marker (drop i (pre @ occ @ rest @ newline # post)) = None)
         [0..<length pre]
        \<and> lower occ = lower marker \<and> newline \<notin> set rest"
  then have "re_sub_del (echo marker) (pre @ occ @ rest @ newline # post)
        = pre @ re_sub_del (echo marker) (occ @ rest @ newline # post)"
    using re_sub_del_skip by blast
  with a show "re_sub_del (echo marker) (pre @ occ @ rest @ newline # post)
        = pre @ re_sub_del (echo marker) post"
    by (simp add: re_sub_del_occurrence)
next
  assume b: "list_all (\<lambda>i. echo marker (drop i (before @ tail)) = None) [0..<length before]
        \<and> newline \<notin> set tail"
  then have "\<not> matches_somewhere (echo marker) tail"
    using echo_needs_newline by blast
  then have "re_sub_del (echo marker) tail = tail" by (rule re_sub_del_no_match)
  moreover from b have "re_sub_del (echo marker) (before @ tail)
        = before @ re_sub_del (echo marker) tail"
    using re_sub_del_skip by blast
  ultimately show "re_sub_del (echo marker) (before @ tail) = before @ tail" by simp
qed

theorem remove_echoes_spec_witness:
  "list_all (\<lambda>i. echo ''# Response:'' (drop i (''x = 1 '' @ ''# RESPONSE:'' @ '' foo'' @ newline # ''y'')) = None)
     [0..<length ''x = 1 '']
   \<and> lower ''# RESPONSE:'' = lower ''# Response:'' \<and> newline \<notin> set '' foo''
   \<and> re_sub_del (echo ''# Response:'') (''x = 1 '' @ ''# RESPONSE:'' @ '' foo'' @ newline # ''y'')
       = ''x = 1 '' @ re_sub_del (echo ''# Response:'') ''y''
   \<and> list_all (\<lambda>i. echo ''# Response:'' (drop i (''a = 1\<newline>'' @ ''# Response: last line'')) = None)
         [0..<length ''a = 1\<newline>'']
   \<and> newline \<notin> set ''# Response: last line''
   \<and> re_sub_del (echo ''# Response:'') (''a = 1\<newline>'' @ ''# Response: last line'')
       = ''a = 1\<newline>'' @ ''# Response: last line''"
proof -
  have 1: "list_all (\<lambda>i. echo ''# Response:'' (drop i (''x = 1 '' @ ''# RESPONSE:'' @ '' foo'' @ newline # ''y'')) = None)
     [0..<length ''x = 1 '']"
    by code_simp
  have 2: "lower ''# RESPONSE:'' = lower ''# Response:''" by code_simp
  have 3: "newline \<notin> set '' foo''" by code_simp
  have 4: "list_all (\<lambda>i. echo ''# Response:'' (drop i (''a = 1\<newline>'' @ ''# Response: last line'')) = None)
         [0..<length ''a = 1\<newline>'']"
    by code_simp
  have 5: "newline \<notin> set ''# Response: last line''" by code_simp
  from remove_echoes_spec [where marker = "''# Response:''" and pre = "''x = 1 ''"
      and occ = "''# RESPONSE:''" and rest = "'' foo''" and post = "''y''"
      and before = "''a = 1\<newline>''" and tail = "''# Response: last line''"] 1 2 3 4 5
  show ?thesis by blast
qed

text \<open>
  C7, as stated, fails. For the tag \<open>python\<close>, on a console that writes the warning: the
  text \<open>if a: \<newline>b\<close> has no fence and no
  echo; \<open>ast.parse\<close> rejects it, the repair strips the first line and leaves the second one
  alone, because the first line of the input ends with a space and not with the colon. The
  result \<open>if a:\<newline>b\<close> is rejected again, and this time the repair indents the second line.
  For any other tag: a text with no fence and no line that starts with an echo marker can
  still hold an echo in the middle of a line; removing it can join backticks to a fence,
  which the second cleaning removes.
\<close>

theorem clean_idempotent_counterexample:
  "\<not> contains ''```'' ''if a: \<newline>b'' \<and> \<not> has_echo ''if a: \<newline>b''
   \<and> clean_generated_code ast_parse_recorded utf8_console ''if a: \<newline>b'' ''python'' = Inr ''if a:\<newline>b''
   \<and> clean_generated_code ast_parse_recorded utf8_console ''if a:\<newline>b'' ''python'' = Inr ''if a:\<newline>    b''
   \<and> \<not> contains ''```'' ''``# Response:\<newline>`''
   \<and> list_all (\<lambda>l. \<not> starts_with (lower ''# Response:'') (lower l)
                   \<and> \<not> starts_with (lower ''// Response:'') (lower l))
        (split_on newline ''``# Response:\<newline>`'')
   \<and> (\<forall>ast_parse print_warning. clean_generated_code ast_parse print_warning ''``# Response:\<newline>`'' ''text'' = Inr ''```''
        \<and> clean_generated_code ast_parse print_warning ''```'' ''text'' = Inr [])"
proof (intro conjI allI)
  show "\<not> contains ''```'' ''if a: \<newline>b''" by code_simp
  show "\<not> has_echo ''if a: \<newline>b''" by code_simp
  show "clean_generated_code ast_parse_recorded utf8_console ''if a: \<newline>b'' ''python'' = Inr ''if a:\<newline>b''"
    by code_simp
  show "clean_generated_code ast_parse_recorded utf8_console ''if a:\<newline>b'' ''python'' = Inr ''if a:\<newline>    b''"
    by code_simp
  show "\<not> contains ''```'' ''``# Response:\<newline>`''" by code_simp
  show "list_all (\<lambda>l. \<not> starts_with (lower ''# Response:'') (lower l)
                   \<and> \<not> starts_with (lower ''// Response:'') (lower l))
        (split_on newline ''``# Response:\<newline>`'')"
    by code_simp
next
  fix ast_parse :: "string \<Rightarrow> py_exception option" and print_warning :: console
  have "strip (remove_echoes (remove_fences ''``# Response:\<newline>`'')) = ''```''"
    by code_simp
  then show "clean_generated_code ast_parse print_warning ''``# Response:\<newline>`'' ''text'' = Inr ''```''"
    by (simp add: clean_other)
  have "strip (remove_echoes (remove_fences ''```'')) = []"
    by code_simp
  then show "clean_generated_code ast_parse print_warning ''```'' ''text'' = Inr []"
    by (simp add: clean_other)
qed

text \<open>
  C7, amended: take an input string that contains no triple backtick and in which neither
  echo pattern matches anywhere (no \<open># Response:\<close> or \<open>// Response:\<close>, in any case of the
  letters, with a newline somewhere after it), and any language tag. When cleaning it
  returns a text and, for the tag \<open>python\<close>, \<open>ast.parse\<close> accepts that text, cleaning that
  text again returns it unchanged.
\<close>

theorem clean_idempotent:
  assumes "\<not> contains ''```'' code" and "\<not> has_echo code"
    and "clean_generated_code ast_parse print_warning code language = Inr out"
    and "language = ''python'' \<longrightarrow> ast_parse out = None"
  shows "clean_generated_code ast_parse print_warning out language = Inr out"
proof -
  from assms(1,2) have same: "remove_echoes (remove_fences code) = code"
    by (simp add: remove_fences_absent remove_echoes_absent)
  from clean_result_cases [OF assms(3)] same
  consider "out = strip code" | msg where "out = strip (fix_python_syntax code msg)"
    by auto
  then have clean: "\<not> contains ''```'' out \<and> \<not> has_echo out \<and> strip out = out"
  proof cases
    case 1
    with assms(1,2) show ?thesis
      using contains_strip has_echo_strip strip_idem by metis
  next
    case 2
    with assms(1,2) show ?thesis
      using contains_strip has_echo_strip contains_fence_fix has_echo_fix strip_idem by metis
  qed
  then have "remove_echoes (remove_fences out) = out"
    by (simp add: remove_fences_absent remove_echoes_absent)
  with clean assms(4) show ?thesis
    by (simp add: clean_generated_code_def Let_def)
qed

theorem clean_idempotent_witness:
  "\<not> contains ''```'' ''x = 1\<newline>'' \<and> \<not> has_echo ''x = 1\<newline>''
   \<and> clean_generated_code ast_parse_recorded utf8_console ''x = 1\<newline>'' ''python'' = Inr ''x = 1''
   \<and> ast_parse_recorded ''x = 1'' = None
   \<and> clean_generated_code ast_parse_recorded utf8_console ''x = 1'' ''python'' = Inr ''x = 1''"
proof -
  have 1: "\<not> contains ''```'' ''x = 1\<newline>''" by code_simp
  have 2: "\<not> has_echo ''x = 1\<newline>''" by code_simp
  have 3: "clean_generated_code ast_parse_recorded utf8_console ''x = 1\<newline>'' ''python'' = Inr ''x = 1''"
    by code_simp
  have 4: "ast_parse_recorded ''x = 1'' = None" by code_simp
  from clean_idempotent [OF 1 2 3] 4 1 2 3 show ?thesis by blast
qed

subsection \<open>Structure responses\<close>

lemma foldl_add_line:
  "foldl add_line acc ls =
     acc @ map file_entry
             (filter (\<lambda>line. list_ex (\<lambda>e. ends_with e line) source_extensions) (map strip ls))"
  by (induction ls arbitrary: acc) (simp_all add: add_line_def Let_def)

lemma ends_with_append: "ends_with e line \<Longrightarrow> \<exists>pre. line = pre @ e"
proof -
  assume "ends_with e line"
  then have "drop (length line - length e) line = e" by (simp add: ends_with_def)
  then have "line = take (length line - length e) line @ e"
    by (metis append_take_drop_id)
  then show ?thesis ..
qed

lemma source_extension_last:
  "e \<in> set source_extensions \<Longrightarrow> e \<noteq> [] \<and> last e \<notin> set ''- ''"
  by (auto simp: source_extensions_def)

lemma strip_chars_leading:
  assumes "list_ex (\<lambda>e. ends_with e line) source_extensions"
  shows "strip_chars ''- '' line = dropWhile (\<lambda>c. c \<in> set ''- '') line \<and> line \<noteq> []"
proof -
  define P where "P = (\<lambda>c::char. c \<in> set ''- '')"
  from assms obtain e where e: "e \<in> set source_extensions" "ends_with e line"
    by (auto simp: list_ex_iff)
  then obtain pre where line: "line = pre @ e" using ends_with_append by blast
  from e(1) have ne: "e \<noteq> []" and nl: "\<not> P (last e)"
    using source_extension_last unfolding P_def by blast+
  from line ne have lne: "line \<noteq> []" and last: "last line = last e" by simp_all
  define t where "t = dropWhile P line"
  have split: "line = takeWhile P line @ t" by (simp add: t_def)
  have tne: "t \<noteq> []"
  proof
    assume "t = []"
    with split have "line = takeWhile P line" by simp
    then have "\<forall>c \<in> set line. P c" by (metis set_takeWhileD)
    moreover from lne have "last line \<in> set line" by simp
    ultimately show False using nl last by simp
  qed
  with split have "last t = last line" by (metis last_appendR)
  with last nl have "\<not> P (last t)" by simp
  with tne have "\<not> P (hd (rev t))" by (simp add: hd_rev)
  with tne have "dropWhile P (rev t) = rev t" by (cases "rev t") auto
  then have "rev (dropWhile P (rev t)) = t" by simp
  then have "strip_chars ''- '' line = t" by (simp add: strip_chars_def t_def P_def)
  with lne show ?thesis by (simp add: t_def P_def)
qed

lemma fallback_files: "foldl add_line [] (split_on newline (strip response)) = listed_files response"
proof -
  have "map file_entry
          (filter (\<lambda>line. list_ex (\<lambda>e. ends_with e line) source_extensions) ls)
        = map (\<lambda>line. JObject [(''path'', JString (dropWhile (\<lambda>c. c \<in> set ''- '') line)),
                          (''language'', JString (detect_language line))])
            (filter (\<lambda>line. line \<noteq> [] \<and> list_ex (\<lambda>e. ends_with e line) source_extensions) ls)"
    for ls
  proof (induction ls)
    case Nil
    show ?case by simp
  next
    case (Cons l ls)
    show ?case
    proof (cases "list_ex (\<lambda>e. ends_with e l) source_extensions")
      case True
      from strip_chars_leading [OF True] Cons True show ?thesis
        by (simp add: file_entry_def)
    next
      case False
      with Cons show ?thesis by simp
    qed
  qed
  then show ?thesis by (simp add: foldl_add_line listed_files_def)
qed

text \<open>
  C6: for every raw text in which the JSON-fence pattern finds nothing, and whatever the
  JSON decoder is, the parser returns the structure named \<open>project\<close> whose files are the
  list the specification describes: one entry per trimmed, non-empty line that ends in a
  source extension, in the order of the lines, the path without its leading hyphens and
  spaces, the tag the one the language detector gives for the line.
\<close>

theorem parse_structure_response_fallback:
  "re_search json_fence True response = None \<Longrightarrow>
   parse_structure_response loads print_warning response =
     Inr (JObject [(''name'', JString ''project''), (''files'', JArray (listed_files response))])"
  by (simp add: parse_structure_response_def structure_body_def fallback_structure_def
      fallback_files)

theorem parse_structure_response_fallback_witness:
  "re_search json_fence True ''Files:\<newline>- main.py\<newline>  src/app.js  \<newline>notes.txt'' = None
   \<and> parse_structure_response json_loads utf8_console ''Files:\<newline>- main.py\<newline>  src/app.js  \<newline>notes.txt'' =
       Inr (JObject [(''name'', JString ''project''),
                     (''files'',
                      JArray [JObject [(''path'', JString ''main.py''), (''language'', JString ''python'')],
                              JObject [(''path'', JString ''src/app.js''),
                                       (''language'', JString ''javascript'')]])])"
proof -
  have 1: "re_search json_fence True ''Files:\<newline>- main.py\<newline>  src/app.js  \<newline>notes.txt'' = None"
    by code_simp
  have 2: "listed_files ''Files:\<newline>- main.py\<newline>  src/app.js  \<newline>notes.txt''
           = [JObject [(''path'', JString ''main.py''), (''language'', JString ''python'')],
              JObject [(''path'', JString ''src/app.js''), (''language'', JString ''javascript'')]]"
    by code_simp
  from parse_structure_response_fallback [OF 1, of json_loads utf8_console] 1 2 show ?thesis by simp
qed

lemma json_fence_needs_marker:
  "\<not> starts_with (''```json'' @ [newline]) s \<Longrightarrow> json_fence bol s = None"
  by (simp add: json_fence_def lit_def strip_prefix_def)

lemma re_search_json_skip:
  "list_all (\<lambda>i. \<not> starts_with (''```json'' @ [newline]) (drop i (pre @ t))) [0..<length pre] \<Longrightarrow>
   \<exists>bol'. re_search json_fence bol (pre @ t) = re_search json_fence bol' t"
proof (induction pre arbitrary: bol)
  case Nil
  show ?case by auto
next
  case (Cons c pre)
  from Cons.prems
  have all: "\<forall>i<Suc (length pre). \<not> starts_with (''```json'' @ [newline]) (drop i (c # pre @ t))"
    by (auto simp: list_all_iff simp del: upt_Suc)
  then have "\<not> starts_with (''```json'' @ [newline]) (drop 0 (c # pre @ t))" by blast
  then have "json_fence bol (c # pre @ t) = None"
    using json_fence_needs_marker by simp
  then have here: "re_search json_fence bol ((c # pre) @ t) = re_search json_fence (c = newline) (pre @ t)"
    by simp
  have "\<forall>i<length pre. \<not> starts_with (''```json'' @ [newline]) (drop i (pre @ t))"
  proof (intro allI impI)
    fix i assume "i < length pre"
    then have "\<not> starts_with (''```json'' @ [newline]) (drop (Suc i) (c # pre @ t))"
      using all by (metis Suc_less_eq)
    then show "\<not> starts_with (''```json'' @ [newline]) (drop i (pre @ t))" by simp
  qed
  then have "list_all (\<lambda>i. \<not> starts_with (''```json'' @ [newline]) (drop i (pre @ t))) [0..<length pre]"
    by (simp add: list_all_iff)
  from Cons.IH [OF this] here show ?case by metis
qed

lemma lit_prefix: "lit p k (p @ s) = k s"
  by (simp add: lit_def strip_prefix_def starts_with_def)

lemma lazy_star_now: "k s = Some r \<Longrightarrow> lazy_star P k s = Some ([], r)"
  by (cases s) auto

lemma lazy_until_closing:
  "list_all (\<lambda>j. \<not> starts_with p (drop j (content @ p @ post))) [0..<length content] \<Longrightarrow>
   lazy_star any_char (lit p Some) (content @ p @ post) = Some (content, post)"
proof (induction content)
  case Nil
  have "lit p Some (p @ post) = Some post" by (rule lit_prefix)
  then show ?case by (simp add: lazy_star_now)
next
  case (Cons c content)
  from Cons.prems
  have all: "\<forall>j<Suc (length content). \<not> starts_with p (drop j (c # content @ p @ post))"
    by (auto simp: list_all_iff simp del: upt_Suc)
  then have "\<not> starts_with p (drop 0 (c # content @ p @ post))" by blast
  then have here: "lit p Some (c # content @ p @ post) = None"
    by (simp add: lit_def strip_prefix_def)
  have "\<forall>j<length content. \<not> starts_with p (drop j (content @ p @ post))"
  proof (intro allI impI)
    fix j assume "j < length content"
    then have "\<not> starts_with p (drop (Suc j) (c # content @ p @ post))"
      using all by (metis Suc_less_eq)
    then show "\<not> starts_with p (drop j (content @ p @ post))" by simp
  qed
  then have "list_all (\<lambda>j. \<not> starts_with p (drop j (content @ p @ post))) [0..<length content]"
    by (simp add: list_all_iff)
  from Cons.IH [OF this] here show ?case by (simp add: any_char_def)
qed

lemma json_fence_block:
  assumes "list_all (\<lambda>j. \<not> starts_with (newline # ''```'') (drop j (content @ newline # ''```'' @ post)))
             [0..<length content]"
  shows "re_search json_fence bol (''```json'' @ [newline] @ content @ newline # ''```'' @ post)
         = Some content"
proof -
  have "lazy_star any_char (lit (newline # ''```'') Some) (content @ (newline # ''```'') @ post)
        = Some (content, post)"
    by (rule lazy_until_closing) (use assms in simp)
  then have "json_fence bol ((''```json'' @ [newline]) @ content @ (newline # ''```'') @ post)
        = Some (content, post)"
    unfolding json_fence_def lit_def [of "''```json'' @ [newline]"] strip_prefix_def starts_with_def
    by simp
  then show ?thesis by simp
qed

lemma re_search_first_block:
  assumes "list_all (\<lambda>i. \<not> starts_with (''```json'' @ [newline])
                (drop i (pre @ ''```json'' @ [newline] @ content @ newline # ''```'' @ post)))
             [0..<length pre]"
    and "list_all (\<lambda>j. \<not> starts_with (newline # ''```'') (drop j (content @ newline # ''```'' @ post)))
             [0..<length content]"
  shows "re_search json_fence True (pre @ ''```json'' @ [newline] @ content @ newline # ''```'' @ post)
         = Some content"
  using re_search_json_skip [OF assms(1), of True] json_fence_block [OF assms(2)] by auto

text \<open>
  C5, as stated, fails: only the first block that the pattern finds is decoded. When
  that block is not JSON, the parser returns the default structure, although a later
  block of the text holds a plan that decodes and matches the schema.
\<close>

theorem parse_structure_response_json_counterexample:
  "json_loads sample_plan = Inr sample_structure
   \<and> is_project_structure sample_structure
   \<and> parse_structure_response json_loads utf8_console
        (''```json\<newline>not a plan\<newline>```\<newline>```json\<newline>'' @ sample_plan @ ''\<newline>```'')
      = Inr default_structure
   \<and> default_structure \<noteq> sample_structure"
  by code_simp

text \<open>
  C5, amended: take a raw text in which the marker \<open>```json\<close> with its newline stands
  after a prefix in which that marker starts nowhere, followed by the block contents, and
  then by a newline and \<open>```\<close> that start nowhere inside the contents. If the decoder
  returns a value for the contents, the parser returns exactly that value, whatever the
  text before and after the block is, and whether or not the value matches the schema.
\<close>

theorem parse_structure_response_json:
  assumes "list_all (\<lambda>i. \<not> starts_with (''```json'' @ [newline])
                (drop i (pre @ ''```json'' @ [newline] @ content @ newline # ''```'' @ post)))
             [0..<length pre]"
    and "list_all (\<lambda>j. \<not> starts_with (newline # ''```'') (drop j (content @ newline # ''```'' @ post)))
             [0..<length content]"
    and "loads content = Inr plan"
  shows "parse_structure_response loads print_warning
           (pre @ ''```json'' @ [newline] @ content @ newline # ''```'' @ post) = Inr plan"
  using re_search_first_block [OF assms(1,2)] assms(3)
  by (simp add: parse_structure_response_def structure_body_def)

theorem parse_structure_response_json_witness:
  "list_all (\<lambda>i. \<not> starts_with (''```json'' @ [newline])
                (drop i (''Plan:\<newline>'' @ ''```json'' @ [newline] @ sample_plan @ newline # ''```'' @ ''\<newline>Done.'')))
             [0..<length ''Plan:\<newline>'']
   \<and> list_all (\<lambda>j. \<not> starts_with (newline # ''```'') (drop j (sample_plan @ newline # ''```'' @ ''\<newline>Done.'')))
             [0..<length sample_plan]
   \<and> json_loads sample_plan = Inr sample_structure
   \<and> parse_structure_response json_loads utf8_console
        (''Plan:\<newline>'' @ ''```json'' @ [newline] @ sample_plan @ newline # ''```'' @ ''\<newline>Done.'')
      = Inr sample_structure"
proof -
  have 1: "list_all (\<lambda>i. \<not> starts_with (''```json'' @ [newline])
                (drop i (''Plan:\<newline>'' @ ''```json'' @ [newline] @ sample_plan @ newline # ''```'' @ ''\<newline>Done.'')))
             [0..<length ''Plan:\<newline>'']"
    by code_simp
  have 2: "list_all (\<lambda>j. \<not> starts_with (newline # ''```'') (drop j (sample_plan @ newline # ''```'' @ ''\<newline>Done.'')))
             [0..<length sample_plan]"
    by code_simp
  have 3: "json_loads sample_plan = Inr sample_structure" by code_simp
  from parse_structure_response_json [where pre = "''Plan:\<newline>''" and content = sample_plan
      and post = "''\<newline>Done.''" and loads = json_loads and print_warning = utf8_console
      and plan = sample_structure] 1 2 3
  show ?thesis by blast
qed

lemma detect_language_tag: "detect_language filename \<in> set language_tags"
proof (cases "map_of extensions (lower (path_suffix filename))")
  case None
  then show ?thesis by (simp add: detect_language_def language_tags_def)
next
  case (Some tag)
  then have "(lower (path_suffix filename), tag) \<in> set extensions" by (rule map_of_SomeD)
  then have "tag \<in> snd ` set extensions" by force
  with Some show ?thesis by (simp add: detect_language_def language_tags_def)
qed

lemma listed_files_valid: "list_all is_file_spec (listed_files response)"
  by (simp add: listed_files_def list_all_iff required_def optional_def detect_language_tag)

lemma fallback_structure_valid: "is_project_structure (fallback_structure response)"
  by (simp add: fallback_structure_def fallback_files listed_files_valid required_def)

lemma default_structure_valid: "is_project_structure default_structure"
  by code_simp

text \<open>
  C1, as stated, fails, in two ways. A block that decodes is returned as it is, and JSON
  that is a number, or an object without the two keys, is not a project structure. And
  when the block does not decode, the handler prints its warning before it returns: on a
  console whose encoding is ASCII that \<open>print\<close> raises, and the exception leaves the
  function.
\<close>

theorem parse_structure_response_valid_counterexample:
  "parse_structure_response json_loads utf8_console ''```json\<newline>1\<newline>```'' = Inr (JInt 1)
   \<and> \<not> is_project_structure (JInt 1)
   \<and> parse_structure_response json_loads utf8_console ''```json\<newline>{}\<newline>```'' = Inr (JObject [])
   \<and> \<not> is_project_structure (JObject [])
   \<and> parse_structure_response json_loads ascii_console ''```json\<newline>{oops\<newline>```''
       = Inl (Exc UnicodeEncodeError ''ascii codec cannot encode the warning sign'')"
  by code_simp

text \<open>
  C1, amended: take any input string, any JSON decoder and any console on which the
  handler's \<open>print\<close> of the warning returns whenever the handler runs. Then the parser
  raises nothing and returns a value; whenever the body of its \<open>try\<close> raises, that value
  is the fixed default structure, with the files \<open>main.py\<close> and \<open>README.md\<close> and the name
  \<open>project\<close>; and the value is a valid ProjectStructure whenever it is the default
  structure or comes from the line-oriented fallback. A block that decodes is returned
  unchecked. Nothing is said of a console on which that \<open>print\<close> raises.
\<close>

theorem parse_structure_response_total:
  "((\<forall>e'. structure_body loads response = Inl e' \<longrightarrow> print_warning (StructureWarning e') = None) \<longrightarrow>
      (\<exists>result. parse_structure_response loads print_warning response = Inr result
         \<and> (structure_body loads response = Inl e \<longrightarrow> result = default_structure)
         \<and> ((\<exists>e'. structure_body loads response = Inl e')
              \<or> re_search json_fence True response = None
              \<longrightarrow> is_project_structure result)))
   \<and> default_structure =
       JObject [(''name'', JString ''project''),
                (''files'',
                 JArray [JObject [(''path'', JString ''main.py''), (''language'', JString ''python'')],
                         JObject [(''path'', JString ''README.md''),
                                  (''language'', JString ''markdown'')]])]"
proof (intro conjI impI)
  assume printed: "\<forall>e'. structure_body loads response = Inl e' \<longrightarrow>
    print_warning (StructureWarning e') = None"
  show "\<exists>result. parse_structure_response loads print_warning response = Inr result
         \<and> (structure_body loads response = Inl e \<longrightarrow> result = default_structure)
         \<and> ((\<exists>e'. structure_body loads response = Inl e')
              \<or> re_search json_fence True response = None
              \<longrightarrow> is_project_structure result)"
  proof (cases "structure_body loads response")
    case (Inl err)
    with printed have "print_warning (StructureWarning err) = None" by blast
    with Inl have "parse_structure_response loads print_warning response = Inr default_structure"
      by (simp add: parse_structure_response_def)
    then show ?thesis using default_structure_valid by simp
  next
    case (Inr v)
    then have p: "parse_structure_response loads print_warning response = Inr v"
      by (simp add: parse_structure_response_def)
    have "is_project_structure v" if "re_search json_fence True response = None"
    proof -
      from that Inr have "v = fallback_structure response"
        by (simp add: structure_body_def)
      then show ?thesis by (simp add: fallback_structure_valid)
    qed
    with p Inr show ?thesis by simp
  qed
next
  show "default_structure =
       JObject [(''name'', JString ''project''),
                (''files'',
                 JArray [JObject [(''path'', JString ''main.py''), (''language'', JString ''python'')],
                         JObject [(''path'', JString ''README.md''),
                                  (''language'', JString ''markdown'')]])]"
    by (simp add: default_structure_def)
qed

theorem parse_structure_response_total_witness:
  "structure_body json_loads ''```json\<newline>{oops\<newline>```''
     = Inl (Exc JSONDecodeError ''Expecting property name enclosed in double quotes'')
   \<and> utf8_console
        (StructureWarning (Exc JSONDecodeError ''Expecting property name enclosed in double quotes''))
       = None
   \<and> parse_structure_response json_loads utf8_console ''```json\<newline>{oops\<newline>```''
       = Inr default_structure
   \<and> is_project_structure default_structure
   \<and> re_search json_fence True ''- main.py'' = None
   \<and> (\<exists>result. parse_structure_response json_loads utf8_console ''- main.py'' = Inr result
        \<and> is_project_structure result)"
proof -
  have 1: "structure_body json_loads ''```json\<newline>{oops\<newline>```''
     = Inl (Exc JSONDecodeError ''Expecting property name enclosed in double quotes'')"
    by code_simp
  have 2: "re_search json_fence True ''- main.py'' = None" by code_simp
  have 3: "utf8_console w = None" for w by (simp add: utf8_console_def)
  from parse_structure_response_total [where loads = json_loads and print_warning = utf8_console
      and response = "''```json\<newline>{oops\<newline>```''"
      and e = "Exc JSONDecodeError ''Expecting property name enclosed in double quotes''"] 1 3
  have a: "parse_structure_response json_loads utf8_console ''```json\<newline>{oops\<newline>```''
             = Inr default_structure
           \<and> is_project_structure default_structure"
    by auto
  from parse_structure_response_total [where loads = json_loads and print_warning = utf8_console
      and response = "''- main.py''"] 2 3
  have b: "\<exists>result. parse_structure_response json_loads utf8_console ''- main.py'' = Inr result
        \<and> is_project_structure result"
    by blast
  from 1 2 3 a b show ?thesis by blast
qed

end
